theory Spec2Isabelle
  imports Main "HOL-Library.Word"
begin

section \<open>The OneBot channel adapter (package channels)\<close>

subsection \<open>Channel state\<close>

text \<open>
  Modelled from the spec: the type \<open>config.OneBotConfig\<close> is declared outside the
  sources at hand. These are the four settings the adapter reads from it (socket
  endpoint, optional bearer token, reconnect interval in seconds with \<open>0\<close> for "off",
  group-trigger prefix list), under the names the adapter uses.
\<close>

record OneBotConfig =
  WSUrl :: string
  AccessToken :: string
  ReconnectInterval :: int
  GroupTriggerPrefix :: "string list"

text \<open>
  The fields of the Go struct \<open>OneBotChannel\<close> that the functions below read or write.
  The presence map \<open>map[string]struct{}\<close> is a set of strings, the ring \<open>[]string\<close> a
  list, the cursor a natural number (it is only ever assigned \<open>0\<close> and a remainder
  modulo the ring's length), the echo counter an \<open>int64\<close>, which wraps. The websocket
  handle \<open>conn\<close> is \<open>None\<close> for \<open>nil\<close> and otherwise names the connection by the
  number the dialer gave it.

  Modelled from the spec: the embedded \<open>BaseChannel\<close> is declared outside the sources
  at hand; of it the adapter uses the running flag (\<open>IsRunning\<close>, \<open>setRunning\<close>),
  which is the field \<open>running\<close>, and the bus callback \<open>HandleMessage\<close>, whose call
  \<open>handleMessage\<close> returns as a value.
\<close>

record OneBotChannel =
  config :: OneBotConfig
  running :: bool
  conn :: "nat option"
  dedup :: "string set"
  dedupRing :: "string list"
  dedupIdx :: nat
  echoCounter :: "64 word"

definition dedupSize :: nat where
  "dedupSize = 1024"

definition NewOneBotChannel :: "OneBotConfig \<Rightarrow> OneBotChannel" where
  "NewOneBotChannel cfg =
     \<lparr>config = cfg, running = False, conn = None,
      dedup = {}, dedupRing = replicate dedupSize '''', dedupIdx = 0, echoCounter = 0\<rparr>"

text \<open>A configuration for the examples.\<close>

definition example_config :: OneBotConfig where
  "example_config =
     \<lparr>WSUrl = ''ws://127.0.0.1:3001'', AccessToken = [], ReconnectInterval = 5,
      GroupTriggerPrefix = [''!bot '']\<rparr>"

subsection \<open>Deduplication\<close>

text \<open>
  \<open>isDuplicate\<close> returns the answer and the channel after the call. Go panics on
  \<open>c.dedupRing[c.dedupIdx]\<close> when the cursor is out of range (and on the remainder by
  an empty ring's length, which the same check excludes); the panic is \<open>None\<close>.
\<close>

definition isDuplicate :: "OneBotChannel \<Rightarrow> string \<Rightarrow> (bool \<times> OneBotChannel) option" where
  "isDuplicate c messageID =
     (if messageID = '''' \<or> messageID = ''0'' then Some (False, c)
      else if messageID \<in> dedup c then Some (True, c)
      else if length (dedupRing c) \<le> dedupIdx c then None
      else
        let old = dedupRing c ! dedupIdx c;
            d1 = (if old \<noteq> '''' then dedup c - {old} else dedup c);
            ring = (dedupRing c)[dedupIdx c := messageID];
            d2 = insert messageID d1
        in Some (False, c\<lparr>dedup := d2, dedupRing := ring,
                          dedupIdx := (dedupIdx c + 1) mod length ring\<rparr>))"

text \<open>A sequence of calls, in order; a panic stops it.\<close>

fun isDuplicate_calls :: "OneBotChannel \<Rightarrow> string list \<Rightarrow> (bool list \<times> OneBotChannel) option" where
  "isDuplicate_calls c [] = Some ([], c)"
| "isDuplicate_calls c (x # xs) =
     (case isDuplicate c x of
        None \<Rightarrow> None
      | Some (r, c') \<Rightarrow>
          (case isDuplicate_calls c' xs of
             None \<Rightarrow> None
           | Some (rs, c'') \<Rightarrow> Some (r # rs, c'')))"

text \<open>
  The invariant of the deduplication state: the ring has the capacity's length, the
  cursor is inside it, a slot's id occurs in no other slot, and the presence set holds
  exactly the ids of the non-empty slots.
\<close>

definition dedup_inv :: "OneBotChannel \<Rightarrow> bool" where
  "dedup_inv c \<longleftrightarrow>
     length (dedupRing c) = dedupSize \<and> dedupIdx c < dedupSize \<and>
     distinct (filter (\<lambda>s. s \<noteq> '''') (dedupRing c)) \<and>
     dedup c = {s \<in> set (dedupRing c). s \<noteq> ''''}"


text \<open>
  The number of insertions the ring still takes before its cursor stands on slot \<open>i\<close>
  (used to say when an id is evicted).
\<close>

definition slot_dist :: "nat \<Rightarrow> OneBotChannel \<Rightarrow> nat" where
  "slot_dist i c = (i + dedupSize - dedupIdx c) mod dedupSize"

text \<open>Sample ids for the examples: \<open>m\<close>, \<open>mm\<close>, \<open>mmm\<close>, ... (\<open>n\<close> of them).\<close>

definition sample_ids :: "nat \<Rightarrow> string list" where
  "sample_ids n = map (\<lambda>k. replicate (Suc k) CHR ''m'') [0..<n]"

subsection \<open>The Go library functions the adapter calls\<close>

text \<open>
  Go strings are byte sequences: \<open>string\<close> here is a list of bytes, \<open>len\<close> is
  \<open>length\<close>, and text beyond ASCII is its UTF-8 encoding. The functions of this
  subsection are those of the packages \<open>strings\<close> and \<open>strconv\<close>, written after
  their documented behaviour and, for the two parsers, after their code.
\<close>

definition HasPrefix :: "string \<Rightarrow> string \<Rightarrow> bool" where
  "HasPrefix s p \<longleftrightarrow> length p \<le> length s \<and> take (length p) s = p"

definition TrimPrefix :: "string \<Rightarrow> string \<Rightarrow> string" where
  "TrimPrefix s p = (if HasPrefix s p then drop (length p) s else s)"

fun Contains :: "string \<Rightarrow> string \<Rightarrow> bool" where
  "Contains [] sub \<longleftrightarrow> sub = []"
| "Contains (c # cs) sub \<longleftrightarrow> HasPrefix (c # cs) sub \<or> Contains cs sub"

declare Contains.simps [simp del]

text \<open>
  \<open>strings.ReplaceAll(s, old, "")\<close>, the only way the adapter calls it: the
  occurrences of \<open>old\<close> are removed from left to right, without overlap. With an
  empty \<open>old\<close> Go inserts the (empty) replacement between the characters, so the
  string is unchanged.
\<close>

function RemoveAll :: "string \<Rightarrow> string \<Rightarrow> string" where
  "RemoveAll s old =
     (if old = [] \<or> s = [] then s
      else if HasPrefix s old then RemoveAll (drop (length old) s) old
      else hd s # RemoveAll (tl s) old)"
  by pat_completeness auto
termination
  by (relation "measure (\<lambda>(s, old). length s)") auto

declare RemoveAll.simps [simp del]

text \<open>
  \<open>strings.TrimSpace\<close> removes the leading and the trailing white space, as Unicode
  defines it (\<open>unicode.IsSpace\<close>). On bytes: the six ASCII characters tab, line
  feed, vertical tab, form feed, carriage return and space, and the UTF-8 encodings of
  U+0085, U+00A0, U+1680, U+2000 to U+200A, U+2028, U+2029, U+202F, U+205F and U+3000.
\<close>

definition space_runes :: "string list" where
  "space_runes =
     [[CHR 0x09], [CHR 0x0A], [CHR 0x0B], [CHR 0x0C], [CHR 0x0D], [CHR 0x20],
      [CHR 0xC2, CHR 0x85], [CHR 0xC2, CHR 0xA0], [CHR 0xE1, CHR 0x9A, CHR 0x80],
      [CHR 0xE2, CHR 0x80, CHR 0x80], [CHR 0xE2, CHR 0x80, CHR 0x81],
      [CHR 0xE2, CHR 0x80, CHR 0x82], [CHR 0xE2, CHR 0x80, CHR 0x83],
      [CHR 0xE2, CHR 0x80, CHR 0x84], [CHR 0xE2, CHR 0x80, CHR 0x85],
      [CHR 0xE2, CHR 0x80, CHR 0x86], [CHR 0xE2, CHR 0x80, CHR 0x87],
      [CHR 0xE2, CHR 0x80, CHR 0x88], [CHR 0xE2, CHR 0x80, CHR 0x89],
      [CHR 0xE2, CHR 0x80, CHR 0x8A], [CHR 0xE2, CHR 0x80, CHR 0xA8],
      [CHR 0xE2, CHR 0x80, CHR 0xA9], [CHR 0xE2, CHR 0x80, CHR 0xAF],
      [CHR 0xE2, CHR 0x81, CHR 0x9F], [CHR 0xE3, CHR 0x80, CHR 0x80]]"

text \<open>The length of the pattern that \<open>s\<close> begins with, \<open>0\<close> when it begins with none.\<close>

definition leading_len :: "string list \<Rightarrow> string \<Rightarrow> nat" where
  "leading_len pats s =
     (case find (HasPrefix s) pats of None \<Rightarrow> 0 | Some p \<Rightarrow> length p)"

function strip_leading :: "string list \<Rightarrow> string \<Rightarrow> string" where
  "strip_leading pats s =
     (if s = [] \<or> leading_len pats s = 0 then s
      else strip_leading pats (drop (leading_len pats s) s))"
  by pat_completeness auto
termination
  by (relation "measure (\<lambda>(pats, s). length s)") auto

declare strip_leading.simps [simp del]

definition TrimSpace :: "string \<Rightarrow> string" where
  "TrimSpace s =
     rev (strip_leading (map rev space_runes) (rev (strip_leading space_runes s)))"

text \<open>
  \<open>strconv.FormatInt(i, 10)\<close>, which is also what \<open>%d\<close> prints: the decimal digits,
  after a minus sign for a negative number.
\<close>

definition digit_char :: "nat \<Rightarrow> char" where
  "digit_char d = ''0123456789'' ! d"

function FormatUint :: "nat \<Rightarrow> string" where
  "FormatUint n = (if n < 10 then [digit_char n] else FormatUint (n div 10) @ [digit_char (n mod 10)])"
  by pat_completeness auto
termination
  by (relation "measure id") auto

declare FormatUint.simps [simp del]

definition FormatInt :: "int \<Rightarrow> string" where
  "FormatInt i = (if i < 0 then CHR ''-'' # FormatUint (nat (- i)) else FormatUint (nat i))"

text \<open>
  \<open>strconv.ParseUint(s, 10, 64)\<close> and \<open>strconv.ParseInt(s, 10, 64)\<close>. Both return a
  value together with the error: \<open>0\<close> with a syntax error, the largest magnitude of
  the sign with a range error. The accumulator \<open>n\<close> is a \<open>uint64\<close>; its
  multiplication and addition wrap, as in the code, which tests for the wrap.
\<close>

datatype num_error = ErrSyntax | ErrRange

definition maxUint64 :: nat where
  "maxUint64 = 2 ^ 64 - 1"

definition is_digit :: "char \<Rightarrow> bool" where
  "is_digit c \<longleftrightarrow> 48 \<le> (of_char c :: nat) \<and> (of_char c :: nat) \<le> 57"

fun ParseUint_loop :: "nat \<Rightarrow> string \<Rightarrow> nat \<times> num_error option" where
  "ParseUint_loop n [] = (n, None)"
| "ParseUint_loop n (c # cs) =
     (if \<not> is_digit c then (0, Some ErrSyntax)
      else if maxUint64 div 10 + 1 \<le> n then (maxUint64, Some ErrRange)
      else
        let n10 = (n * 10) mod 2 ^ 64;
            n1 = (n10 + (of_char c - 48)) mod 2 ^ 64
        in if n1 < n10 \<or> maxUint64 < n1 then (maxUint64, Some ErrRange)
           else ParseUint_loop n1 cs)"

declare ParseUint_loop.simps [simp del]

definition ParseUint :: "string \<Rightarrow> nat \<times> num_error option" where
  "ParseUint s = (if s = [] then (0, Some ErrSyntax) else ParseUint_loop 0 s)"

definition ParseInt :: "string \<Rightarrow> int \<times> num_error option" where
  "ParseInt s =
     (if s = [] then (0, Some ErrSyntax)
      else
        let neg = (hd s = CHR ''-'');
            s' = (if hd s = CHR ''+'' \<or> hd s = CHR ''-'' then tl s else s);
            (un, err) = ParseUint s'
        in if err = Some ErrSyntax then (0, Some ErrSyntax)
           else if \<not> neg \<and> 2 ^ 63 \<le> un then (2 ^ 63 - 1, Some ErrRange)
           else if neg \<and> 2 ^ 63 < un then (- (2 ^ 63), Some ErrRange)
           else (if neg then - int un else int un, None))"

subsection \<open>JSON values and the decoder\<close>

text \<open>
  A \<open>json.RawMessage\<close> field of a decoded frame is empty when the field was absent
  and otherwise holds the text of one JSON value, which is valid, since the frame
  decoded. It is modelled by the value that text denotes: \<open>None\<close> is the empty raw
  message (\<open>len(raw) == 0\<close>). A number carries its literal, as the decoder works on
  the literal; an object carries its members in document order.
\<close>

datatype json =
    JNull
  | JBool bool
  | JNumber string
  | JString string
  | JArray "json list"
  | JObject "(string \<times> json) list"

type_synonym RawMessage = "json option"

text \<open>
  \<open>json.Unmarshal(raw, &n)\<close> for \<open>var n int64\<close>: \<open>null\<close> leaves \<open>n\<close> at \<open>0\<close>
  without an error, a number is stored when \<open>strconv.ParseInt\<close> accepts its literal,
  and every other value is a type error. \<open>None\<close> is the error.
\<close>

fun unmarshal_int64 :: "json \<Rightarrow> int option" where
  "unmarshal_int64 JNull = Some 0"
| "unmarshal_int64 (JNumber lit) =
     (case ParseInt lit of (n, None) \<Rightarrow> Some n | (n, Some e) \<Rightarrow> None)"
| "unmarshal_int64 _ = None"

text \<open>
  \<open>json.Unmarshal(raw, &s)\<close> for \<open>var s string\<close>: \<open>null\<close> leaves \<open>s\<close> empty without
  an error, a string is stored, every other value is a type error.
\<close>

fun unmarshal_string :: "json \<Rightarrow> string option" where
  "unmarshal_string JNull = Some []"
| "unmarshal_string (JString s) = Some s"
| "unmarshal_string _ = None"

text \<open>
  \<open>string(raw)\<close>, the text of a raw value. For a number it is the literal and for
  \<open>true\<close>, \<open>false\<close> and \<open>null\<close> the keyword. For the other values the model gives
  the compact text (no white space between tokens, only the quote and the backslash
  escaped), which is one of the texts the value can have had on the wire.
\<close>

fun quote_body :: "string \<Rightarrow> string" where
  "quote_body [] = []"
| "quote_body (c # cs) =
     (if c = CHR 0x22 \<or> c = CHR 0x5C then CHR 0x5C # c # quote_body cs else c # quote_body cs)"

definition quote :: "string \<Rightarrow> string" where
  "quote s = CHR 0x22 # quote_body s @ [CHR 0x22]"

fun join_comma :: "string list \<Rightarrow> string" where
  "join_comma [] = []"
| "join_comma [x] = x"
| "join_comma (x # y # ys) = x @ '','' @ join_comma (y # ys)"

fun raw_text :: "json \<Rightarrow> string" where
  "raw_text JNull = ''null''"
| "raw_text (JBool b) = (if b then ''true'' else ''false'')"
| "raw_text (JNumber lit) = lit"
| "raw_text (JString s) = quote s"
| "raw_text (JArray vs) = ''['' @ join_comma (map raw_text vs) @ '']''"
| "raw_text (JObject kvs) =
     ''{'' @ join_comma (map (\<lambda>(k, v). quote k @ '':'' @ raw_text v) kvs) @ ''}''"

text \<open>
  A decoded object as a Go map: a later member with the same key overwrites an earlier
  one, so a lookup finds the last. A missing key reads as \<open>nil\<close>, like \<open>null\<close>.
\<close>

definition member :: "(string \<times> json) list \<Rightarrow> string \<Rightarrow> json" where
  "member kvs k = (case map_of (rev kvs) k of None \<Rightarrow> JNull | Some v \<Rightarrow> v)"

text \<open>
  The decoder matches a member's key with a struct field's name ignoring case
  (\<open>foldName\<close>): ASCII letters by their upper case, and the two other letters that
  Unicode folds with ASCII ones, U+212A (Kelvin sign) with K and U+017F (long s) with S.
\<close>

definition upper :: "char \<Rightarrow> char" where
  "upper c =
     (case map_of (zip ''abcdefghijklmnopqrstuvwxyz'' ''ABCDEFGHIJKLMNOPQRSTUVWXYZ'') c of
        None \<Rightarrow> c
      | Some u \<Rightarrow> u)"

fun foldName :: "string \<Rightarrow> string" where
  "foldName (a # b # c # cs) =
     (if a = CHR 0xE2 \<and> b = CHR 0x84 \<and> c = CHR 0xAA then CHR ''K'' # foldName cs
      else if a = CHR 0xC5 \<and> b = CHR 0xBF then CHR ''S'' # foldName (c # cs)
      else upper a # foldName (b # c # cs))"
| "foldName [a, b] =
     (if a = CHR 0xC5 \<and> b = CHR 0xBF then ''S'' else [upper a, upper b])"
| "foldName [a] = [upper a]"
| "foldName [] = []"

subsection \<open>Wire events and their normal form\<close>

text \<open>
  The structs \<open>oneBotRawEvent\<close>, \<open>BotStatus\<close>, \<open>oneBotSender\<close> and \<open>oneBotEvent\<close>.
  Field names are global in a theory, so the fields of the raw event carry the prefix
  \<open>raw_\<close> and those of the sender the prefix \<open>sender_\<close>; the normalized event keeps
  the names of the source.
\<close>

record BotStatus =
  Online :: bool
  Good :: bool

record oneBotRawEvent =
  raw_PostType :: string
  raw_MessageType :: string
  raw_SubType :: string
  raw_MessageID :: RawMessage
  raw_UserID :: RawMessage
  raw_GroupID :: RawMessage
  raw_RawMessage :: string
  raw_Message :: RawMessage
  raw_Sender :: RawMessage
  raw_SelfID :: RawMessage
  raw_Time :: RawMessage
  raw_MetaEventType :: string
  raw_Echo :: string
  raw_RetCode :: RawMessage
  raw_Status :: BotStatus

record oneBotSender =
  sender_UserID :: RawMessage
  sender_Nickname :: string
  sender_Card :: string

record oneBotEvent =
  PostType :: string
  MessageType :: string
  SubType :: string
  MessageID :: string
  UserID :: int
  GroupID :: int
  Content :: string
  RawContent :: string
  IsBotMentioned :: bool
  Sender :: oneBotSender
  SelfID :: int
  Time :: int
  MetaEventType :: string

text \<open>
  The errors of the coercion: the \<open>*strconv.NumError\<close> that \<open>ParseInt\<close> returned for
  the string it was given, or "cannot parse as int64" with the raw value.
\<close>

datatype parse_error = NumError num_error string | CannotParse json

datatype normalize_error = ParseUserID parse_error

text \<open>
  \<open>parseJSONInt64\<close> returns a value and an error, as in Go; a caller that drops the
  error still reads the value.
\<close>

definition parseJSONInt64 :: "RawMessage \<Rightarrow> int \<times> parse_error option" where
  "parseJSONInt64 raw =
     (case raw of
        None \<Rightarrow> (0, None)
      | Some v \<Rightarrow>
          (case unmarshal_int64 v of
             Some n \<Rightarrow> (n, None)
           | None \<Rightarrow>
               (case unmarshal_string v of
                  Some s \<Rightarrow>
                    (case ParseInt s of
                       (n, None) \<Rightarrow> (n, None)
                     | (n, Some e) \<Rightarrow> (n, Some (NumError e s)))
                | None \<Rightarrow> (0, Some (CannotParse v)))))"

definition parseJSONString :: "RawMessage \<Rightarrow> string" where
  "parseJSONString raw =
     (case raw of
        None \<Rightarrow> []
      | Some v \<Rightarrow> (case unmarshal_string v of Some s \<Rightarrow> s | None \<Rightarrow> raw_text v))"

text \<open>
  \<open>json.Unmarshal(raw.Sender, &sender)\<close>. The decoder goes through the members of an
  object in order; a member whose value does not fit its field is skipped and the
  first such type error is returned at the end, with the other fields filled. The
  boolean is "an error was returned". \<open>null\<close> changes nothing; any other value that
  is not an object is a type error.
\<close>

definition empty_sender :: oneBotSender where
  "empty_sender = \<lparr>sender_UserID = None, sender_Nickname = [], sender_Card = []\<rparr>"

fun sender_member :: "bool \<times> oneBotSender \<Rightarrow> string \<times> json \<Rightarrow> bool \<times> oneBotSender" where
  "sender_member (err, s) (k, v) =
     (if foldName k = ''USER_ID'' then (err, s\<lparr>sender_UserID := Some v\<rparr>)
      else if foldName k = ''NICKNAME'' then
        (case v of
           JString t \<Rightarrow> (err, s\<lparr>sender_Nickname := t\<rparr>)
         | JNull \<Rightarrow> (err, s)
         | _ \<Rightarrow> (True, s))
      else if foldName k = ''CARD'' then
        (case v of
           JString t \<Rightarrow> (err, s\<lparr>sender_Card := t\<rparr>)
         | JNull \<Rightarrow> (err, s)
         | _ \<Rightarrow> (True, s))
      else (err, s))"

definition unmarshal_sender :: "json \<Rightarrow> bool \<times> oneBotSender" where
  "unmarshal_sender v =
     (case v of
        JNull \<Rightarrow> (False, empty_sender)
      | JObject kvs \<Rightarrow> foldl sender_member (False, empty_sender) kvs
      | _ \<Rightarrow> (True, empty_sender))"

text \<open>
  Two things the segment decoder takes from the Go library are parameters of the
  model, since both are floating point. Decoding into \<open>[]map[string]any\<close> turns every
  number into a \<open>float64\<close> and fails on a literal outside its range: \<open>float_ok\<close>
  says whether \<open>strconv.ParseFloat\<close> accepts a literal. \<open>fmt.Sprintf("%v", x)\<close>
  prints a string as it is, \<open>nil\<close> as \<open><nil>\<close> and a boolean as its keyword;
  \<open>fmt_other\<close> is what it prints for a number, an array or an object.
\<close>

record golib =
  float_ok :: "string \<Rightarrow> bool"
  fmt_other :: "json \<Rightarrow> string"

fun any_ok :: "golib \<Rightarrow> json \<Rightarrow> bool" where
  "any_ok L (JNumber lit) = float_ok L lit"
| "any_ok L (JArray vs) = list_all (any_ok L) vs"
| "any_ok L (JObject kvs) = list_all (\<lambda>kv. any_ok L (snd kv)) kvs"
| "any_ok L _ = True"

definition Sprintf_v :: "golib \<Rightarrow> json \<Rightarrow> string" where
  "Sprintf_v L v =
     (case v of
        JString s \<Rightarrow> s
      | JNull \<Rightarrow> ''<nil>''
      | JBool b \<Rightarrow> (if b then ''true'' else ''false'')
      | _ \<Rightarrow> fmt_other L v)"

text \<open>
  \<open>json.Unmarshal(raw, &segments)\<close> for \<open>var segments []map[string]any\<close>: \<open>null\<close>
  gives no segments; an array gives one map for each element, the \<open>nil\<close> map (which
  reads like an empty one) for a \<open>null\<close> element; an element that is no object, or a
  number that is no \<open>float64\<close>, is an error (\<open>None\<close>), as is a value that is no array.
\<close>

definition unmarshal_segments :: "golib \<Rightarrow> json \<Rightarrow> (string \<times> json) list list option" where
  "unmarshal_segments L v =
     (case v of
        JNull \<Rightarrow> Some []
      | JArray vs \<Rightarrow>
          if list_all (\<lambda>e. case e of JNull \<Rightarrow> True | JObject kvs \<Rightarrow> any_ok L e | _ \<Rightarrow> False) vs
          then Some (map (\<lambda>e. case e of JObject kvs \<Rightarrow> kvs | _ \<Rightarrow> []) vs)
          else None
      | _ \<Rightarrow> None)"

record parseMessageResult =
  Text :: string
  res_IsBotMentioned :: bool

definition cqAt :: "int \<Rightarrow> string" where
  "cqAt selfID = ''[CQ:at,qq='' @ FormatInt selfID @ '']''"

text \<open>The loop over the segments, with the variables \<open>text\<close> and \<open>mentioned\<close>.\<close>

fun segments_loop ::
  "golib \<Rightarrow> int \<Rightarrow> (string \<times> json) list list \<Rightarrow> string \<Rightarrow> bool \<Rightarrow> string \<times> bool" where
  "segments_loop L selfID [] text mentioned = (text, mentioned)"
| "segments_loop L selfID (seg # segs) text mentioned =
     (let segType = (case member seg ''type'' of JString t \<Rightarrow> t | _ \<Rightarrow> []);
          data = (case member seg ''data'' of JObject kvs \<Rightarrow> Some kvs | _ \<Rightarrow> None)
      in if segType = ''text'' then
           (case data of
              None \<Rightarrow> segments_loop L selfID segs text mentioned
            | Some d \<Rightarrow>
                (case member d ''text'' of
                   JString t \<Rightarrow> segments_loop L selfID segs (text @ t) mentioned
                 | _ \<Rightarrow> segments_loop L selfID segs text mentioned))
         else if segType = ''at'' then
           (case data of
              None \<Rightarrow> segments_loop L selfID segs text mentioned
            | Some d \<Rightarrow>
                if 0 < selfID then
                  (let qqVal = Sprintf_v L (member d ''qq'')
                   in if qqVal = FormatInt selfID \<or> qqVal = ''all''
                      then segments_loop L selfID segs text True
                      else segments_loop L selfID segs text mentioned)
                else segments_loop L selfID segs text mentioned)
         else segments_loop L selfID segs text mentioned)"

definition parseMessageContentEx :: "golib \<Rightarrow> RawMessage \<Rightarrow> int \<Rightarrow> parseMessageResult" where
  "parseMessageContentEx L raw selfID =
     (case raw of
        None \<Rightarrow> \<lparr>Text = [], res_IsBotMentioned = False\<rparr>
      | Some v \<Rightarrow>
          (case unmarshal_string v of
             Some s \<Rightarrow>
               if 0 < selfID \<and> Contains s (cqAt selfID)
               then \<lparr>Text = TrimSpace (RemoveAll s (cqAt selfID)), res_IsBotMentioned = True\<rparr>
               else \<lparr>Text = s, res_IsBotMentioned = False\<rparr>
           | None \<Rightarrow>
               (case unmarshal_segments L v of
                  Some segments \<Rightarrow>
                    (let (text, mentioned) = segments_loop L selfID segments [] False
                     in \<lparr>Text = TrimSpace text, res_IsBotMentioned = mentioned\<rparr>)
                | None \<Rightarrow> \<lparr>Text = [], res_IsBotMentioned = False\<rparr>)))"

text \<open>
  \<open>normalizeMessageEvent\<close>. The receiver is not used; the logging calls are left out.
\<close>

definition normalizeMessageEvent :: "golib \<Rightarrow> oneBotRawEvent \<Rightarrow> normalize_error + oneBotEvent" where
  "normalizeMessageEvent L raw =
     (case parseJSONInt64 (raw_UserID raw) of
        (userID, Some err) \<Rightarrow> Inl (ParseUserID err)
      | (userID, None) \<Rightarrow>
          (let groupID = fst (parseJSONInt64 (raw_GroupID raw));
               selfID = fst (parseJSONInt64 (raw_SelfID raw));
               ts = fst (parseJSONInt64 (raw_Time raw));
               messageID = parseJSONString (raw_MessageID raw);
               parsed = parseMessageContentEx L (raw_Message raw) selfID;
               (content, isBotMentioned) =
                 (if raw_RawMessage raw = [] then (Text parsed, res_IsBotMentioned parsed)
                  else if 0 < selfID then
                    (if Contains (raw_RawMessage raw) (cqAt selfID)
                     then (TrimSpace (RemoveAll (raw_RawMessage raw) (cqAt selfID)), True)
                     else (raw_RawMessage raw, res_IsBotMentioned parsed))
                  else (raw_RawMessage raw, res_IsBotMentioned parsed));
               sender =
                 (case raw_Sender raw of
                    None \<Rightarrow> empty_sender
                  | Some v \<Rightarrow> snd (unmarshal_sender v))
           in Inr \<lparr>PostType = raw_PostType raw, MessageType = raw_MessageType raw,
                   SubType = raw_SubType raw, MessageID = messageID, UserID = userID,
                   GroupID = groupID, Content = content, RawContent = raw_RawMessage raw,
                   IsBotMentioned = isBotMentioned, Sender = sender, SelfID = selfID,
                   Time = ts, MetaEventType = raw_MetaEventType raw\<rparr>))"

text \<open>
  A raw event for the examples: a group message of user 123 in group 456 to the bot
  with self id 5, with the number fields sent as a number or as a string.
\<close>

definition example_raw :: oneBotRawEvent where
  "example_raw =
     \<lparr>raw_PostType = ''message'', raw_MessageType = ''group'', raw_SubType = ''normal'',
      raw_MessageID = Some (JNumber ''777''), raw_UserID = Some (JNumber ''123''),
      raw_GroupID = Some (JString ''456''), raw_RawMessage = ''[CQ:at,qq=5] hi'',
      raw_Message = Some (JString ''something else''),
      raw_Sender = Some (JObject [(''user_id'', JNumber ''123''), (''nickname'', JString ''ann'')]),
      raw_SelfID = Some (JNumber ''5''), raw_Time = None, raw_MetaEventType = [],
      raw_Echo = [], raw_RetCode = None, raw_Status = \<lparr>Online = False, Good = False\<rparr>\<rparr>"

text \<open>
  Library parameters for the examples: every number literal is a \<open>float64\<close>, and a
  number, an array or an object prints as its text.
\<close>

definition example_lib :: golib where
  "example_lib = \<lparr>float_ok = (\<lambda>lit. True), fmt_other = raw_text\<rparr>"

subsection \<open>Group triggers and dispatch\<close>

text \<open>The loop of \<open>checkGroupTrigger\<close> over the configured prefixes, in order.\<close>

fun prefix_loop :: "string list \<Rightarrow> string \<Rightarrow> bool \<times> string" where
  "prefix_loop [] content = (False, content)"
| "prefix_loop (prefix # rest) content =
     (if prefix = [] then prefix_loop rest content
      else if HasPrefix content prefix then (True, TrimSpace (TrimPrefix content prefix))
      else prefix_loop rest content)"

definition checkGroupTrigger :: "OneBotChannel \<Rightarrow> string \<Rightarrow> bool \<Rightarrow> bool \<times> string" where
  "checkGroupTrigger c content isBotMentioned =
     (if isBotMentioned then (True, TrimSpace content)
      else prefix_loop (GroupTriggerPrefix (config c)) content)"

text \<open>
  A call of the bus callback \<open>c.HandleMessage(senderID, chatID, content, []string{},
  metadata)\<close>, with the metadata map.
\<close>

record bus_call =
  call_senderID :: string
  call_chatID :: string
  call_content :: string
  call_media :: "string list"
  call_metadata :: "string \<rightharpoonup> string"

text \<open>The end of \<open>handleMessage\<close>, after the \<open>switch\<close>: the nickname and the call.\<close>

definition forward ::
  "oneBotEvent \<Rightarrow> string \<Rightarrow> string \<Rightarrow> string \<Rightarrow> (string \<rightharpoonup> string) \<Rightarrow> bus_call" where
  "forward evt senderID chatID content metadata =
     \<lparr>call_senderID = senderID, call_chatID = chatID, call_content = content, call_media = [],
      call_metadata =
        (if sender_Nickname (Sender evt) \<noteq> []
         then metadata(''nickname'' \<mapsto> sender_Nickname (Sender evt)) else metadata)\<rparr>"

text \<open>
  \<open>handleMessage\<close> returns the call of the bus callback, if it makes one, and the
  channel after it; \<open>None\<close> is the panic of \<open>isDuplicate\<close>. The logging is left out.
\<close>

definition handleMessage ::
  "OneBotChannel \<Rightarrow> oneBotEvent \<Rightarrow> (bus_call option \<times> OneBotChannel) option" where
  "handleMessage c evt =
     (case isDuplicate c (MessageID evt) of
        None \<Rightarrow> None
      | Some (True, c') \<Rightarrow> Some (None, c')
      | Some (False, c') \<Rightarrow>
          if Content evt = [] then Some (None, c')
          else
            let senderID = FormatInt (UserID evt);
                metadata = [''message_id'' \<mapsto> MessageID evt]
            in if MessageType evt = ''private'' then
                 Some (Some (forward evt senderID (''private:'' @ senderID) (Content evt) metadata), c')
               else if MessageType evt = ''group'' then
                 (let groupIDStr = FormatInt (GroupID evt);
                      chatID = ''group:'' @ groupIDStr;
                      m1 = metadata(''group_id'' \<mapsto> groupIDStr);
                      senderUserID = fst (parseJSONInt64 (sender_UserID (Sender evt)));
                      m2 = (if 0 < senderUserID
                            then m1(''sender_user_id'' \<mapsto> FormatInt senderUserID) else m1);
                      m3 = (if sender_Card (Sender evt) \<noteq> []
                            then m2(''sender_name'' \<mapsto> sender_Card (Sender evt))
                            else if sender_Nickname (Sender evt) \<noteq> []
                            then m2(''sender_name'' \<mapsto> sender_Nickname (Sender evt))
                            else m2);
                      (triggered, strippedContent) =
                        checkGroupTrigger c' (Content evt) (IsBotMentioned evt)
                  in if \<not> triggered then Some (None, c')
                     else Some (Some (forward evt senderID chatID strippedContent m3), c'))
               else Some (None, c'))"

text \<open>An event for the examples: a private message of user 123 with the given content.\<close>

definition example_event :: "string \<Rightarrow> oneBotEvent" where
  "example_event content =
     \<lparr>PostType = ''message'', MessageType = ''private'', SubType = ''friend'',
      MessageID = ''777'', UserID = 123, GroupID = 0, Content = content,
      RawContent = content, IsBotMentioned = False, Sender = empty_sender, SelfID = 5,
      Time = 0, MetaEventType = []\<rparr>"

subsection \<open>Outbound requests and the connection\<close>

text \<open>
  Modelled from the spec: the type \<open>bus.OutboundMessage\<close> is declared outside the
  sources at hand; the adapter reads its destination identifier and its text.
\<close>

record OutboundMessage =
  msg_ChatID :: string
  msg_Content :: string

text \<open>
  The two parameter structs, \<open>{user_id, message}\<close> and \<open>{group_id, message}\<close>, and
  the request.
\<close>

datatype send_params =
    oneBotSendPrivateMsgParams int string
  | oneBotSendGroupMsgParams int string

record oneBotAPIRequest =
  Action :: string
  Params :: send_params
  Echo :: string

datatype send_error =
    NotRunning
  | NotConnected
  | InvalidGroupID string
  | InvalidUserID string
  | InvalidChatID string
  | WriteError

definition buildSendRequest :: "OutboundMessage \<Rightarrow> send_error + string \<times> send_params" where
  "buildSendRequest msg =
     (let chatID = msg_ChatID msg
      in if 6 < length chatID \<and> take 6 chatID = ''group:'' then
           (case ParseInt (drop 6 chatID) of
              (groupID, Some e) \<Rightarrow> Inl (InvalidGroupID chatID)
            | (groupID, None) \<Rightarrow>
                Inr (''send_group_msg'', oneBotSendGroupMsgParams groupID (msg_Content msg)))
         else if 8 < length chatID \<and> take 8 chatID = ''private:'' then
           (case ParseInt (drop 8 chatID) of
              (userID, Some e) \<Rightarrow> Inl (InvalidUserID chatID)
            | (userID, None) \<Rightarrow>
                Inr (''send_private_msg'', oneBotSendPrivateMsgParams userID (msg_Content msg)))
         else
           (case ParseInt chatID of
              (userID, Some e) \<Rightarrow> Inl (InvalidChatID chatID)
            | (userID, None) \<Rightarrow>
                Inr (''send_private_msg'', oneBotSendPrivateMsgParams userID (msg_Content msg))))"

text \<open>
  \<open>Send\<close> either rejects the message before a request is built, or builds a request
  and writes it; \<open>write_ok\<close> is whether \<open>conn.WriteMessage\<close> succeeded, and \<open>Send\<close>
  returns the write's error when it did not. \<open>json.Marshal\<close> cannot fail on a request
  of these types. The counter is incremented as an \<open>int64\<close>.
\<close>

datatype send_result = Rejected send_error | Built oneBotAPIRequest bool

definition Send :: "OneBotChannel \<Rightarrow> OutboundMessage \<Rightarrow> bool \<Rightarrow> send_result \<times> OneBotChannel" where
  "Send c msg write_ok =
     (if \<not> running c then (Rejected NotRunning, c)
      else if conn c = None then (Rejected NotConnected, c)
      else
        (case buildSendRequest msg of
           Inl err \<Rightarrow> (Rejected err, c)
         | Inr (action, params) \<Rightarrow>
             (let c' = c\<lparr>echoCounter := echoCounter c + 1\<rparr>;
                  echo = ''send_'' @ FormatInt (sint (echoCounter c'))
              in (Built \<lparr>Action = action, Params = params, Echo = echo\<rparr> write_ok, c'))))"

text \<open>
  The connection's life. \<open>dial\<close> is the dialer's result: \<open>None\<close> for an error,
  otherwise the new connection. \<open>connect\<close> returns whether it failed.
\<close>

definition connect :: "OneBotChannel \<Rightarrow> nat option \<Rightarrow> bool \<times> OneBotChannel" where
  "connect c dial =
     (case dial of None \<Rightarrow> (True, c) | Some h \<Rightarrow> (False, c\<lparr>conn := Some h\<rparr>))"

datatype start_error = NotConfigured | ConnectFailed

definition Start :: "OneBotChannel \<Rightarrow> nat option \<Rightarrow> start_error option \<times> OneBotChannel" where
  "Start c dial =
     (if WSUrl (config c) = [] then (Some NotConfigured, c)
      else
        let c1 = snd (connect c dial)
        in if 0 < ReconnectInterval (config c) then (None, c1\<lparr>running := True\<rparr>)
           else if conn c1 = None then (Some ConnectFailed, c1)
           else (None, c1\<lparr>running := True\<rparr>))"

text \<open>One tick of \<open>reconnectLoop\<close>: it dials only when there is no connection.\<close>

definition reconnect_tick :: "OneBotChannel \<Rightarrow> nat option \<Rightarrow> OneBotChannel" where
  "reconnect_tick c dial = (if conn c = None then snd (connect c dial) else c)"

text \<open>The error path of \<open>listen\<close>: a failed read closes and clears the connection.\<close>

definition read_error :: "OneBotChannel \<Rightarrow> OneBotChannel" where
  "read_error c = c\<lparr>conn := None\<rparr>"

definition Stop :: "OneBotChannel \<Rightarrow> OneBotChannel" where
  "Stop c = c\<lparr>running := False, conn := None\<rparr>"

text \<open>
  The operations on a channel, one after the other, with the results of the \<open>Send\<close>
  calls in order. (The lock \<open>writeMu\<close> makes the increment and the formatting of the
  echo one step also when callers run concurrently.)
\<close>

datatype channel_op =
    OpStart "nat option"
  | OpTick "nat option"
  | OpReadError
  | OpStop
  | OpSend OutboundMessage bool

fun run_ops :: "OneBotChannel \<Rightarrow> channel_op list \<Rightarrow> send_result list \<times> OneBotChannel" where
  "run_ops c [] = ([], c)"
| "run_ops c (OpStart dial # ops) = run_ops (snd (Start c dial)) ops"
| "run_ops c (OpTick dial # ops) = run_ops (reconnect_tick c dial) ops"
| "run_ops c (OpReadError # ops) = run_ops (read_error c) ops"
| "run_ops c (OpStop # ops) = run_ops (Stop c) ops"
| "run_ops c (OpSend msg write_ok # ops) =
     (let (r, c') = Send c msg write_ok; (rs, c'') = run_ops c' ops in (r # rs, c''))"

text \<open>The echo tokens of the requests that were built.\<close>

fun echoes :: "send_result list \<Rightarrow> string list" where
  "echoes [] = []"
| "echoes (Rejected e # rs) = echoes rs"
| "echoes (Built req ok # rs) = Echo req # echoes rs"

text \<open>A message for the examples.\<close>

definition example_msg :: OutboundMessage where
  "example_msg = \<lparr>msg_ChatID = ''private:123'', msg_Content = ''hi''\<rparr>"

section \<open>Verification\<close>

subsection \<open>The deduplication invariant\<close>

lemma dedup_inv_init: "dedup_inv (NewOneBotChannel p)"
  by (simp add: dedup_inv_def NewOneBotChannel_def dedupSize_def)

lemma filter_update_fresh:
  assumes "i < length xs" "distinct (filter P xs)" "P x" "x \<notin> set xs"
  shows "distinct (filter P (xs[i := x]))"
proof -
  have xs: "xs = take i xs @ xs ! i # drop (Suc i) xs"
    using assms(1) by (simp add: id_take_nth_drop)
  have up: "xs[i := x] = take i xs @ x # drop (Suc i) xs"
    using assms(1) by (simp add: upd_conv_take_nth_drop)
  have d: "distinct (filter P (take i xs @ xs ! i # drop (Suc i) xs))"
    using assms(2) xs by simp
  have nx: "x \<notin> set (take i xs)" "x \<notin> set (drop (Suc i) xs)"
    using assms(4) by (auto dest: in_set_takeD in_set_dropD)
  show ?thesis
    using d nx assms(3) unfolding up by (auto split: if_splits)
qed

lemma set_update_distinct:
  assumes "i < length xs" "distinct (filter P xs)" "P x" "x \<notin> set xs"
  shows "{s \<in> set (xs[i := x]). P s} = insert x ({s \<in> set xs. P s} - {xs ! i})"
proof -
  let ?l = "take i xs" and ?r = "drop (Suc i) xs"
  have xs: "xs = ?l @ xs ! i # ?r"
    using assms(1) by (simp add: id_take_nth_drop)
  have up: "xs[i := x] = ?l @ x # ?r"
    using assms(1) by (simp add: upd_conv_take_nth_drop)
  have "distinct (filter P (?l @ xs ! i # ?r))"
    using assms(2) xs by simp
  then have old: "P (xs ! i) \<Longrightarrow> xs ! i \<notin> set ?l \<and> xs ! i \<notin> set ?r"
    by auto
  have A: "set (xs[i := x]) = set ?l \<union> {x} \<union> set ?r"
    by (simp add: up)
  have B: "set xs = set ?l \<union> {xs ! i} \<union> set ?r"
    using arg_cong[OF xs, of set] by simp
  show ?thesis
    unfolding A B using old assms(3) by auto
qed

lemma isDuplicate_inv:
  assumes "dedup_inv c"
  shows "\<exists>r c'. isDuplicate c x = Some (r, c') \<and> dedup_inv c'"
proof -
  let ?ring = "dedupRing c" and ?i = "dedupIdx c"
  from assms have len: "length ?ring = dedupSize" and idx: "?i < dedupSize"
    and dist: "distinct (filter (\<lambda>s. s \<noteq> '''') ?ring)"
    and eq: "dedup c = {s \<in> set ?ring. s \<noteq> ''''}"
    by (simp_all add: dedup_inv_def)
  show ?thesis
  proof (cases "x = '''' \<or> x = ''0'' \<or> x \<in> dedup c")
    case True
    then show ?thesis using assms by (auto simp: isDuplicate_def)
  next
    case False
    then have x: "x \<noteq> ''''" "x \<noteq> ''0''" "x \<notin> dedup c" by auto
    then have fresh: "x \<notin> set ?ring" using eq by auto
    have i: "?i < length ?ring" using len idx by simp
    have D: "distinct (filter (\<lambda>s. s \<noteq> '''') (?ring[?i := x]))"
      using filter_update_fresh[OF i dist x(1) fresh] .
    have S: "{s \<in> set (?ring[?i := x]). s \<noteq> ''''} = insert x ({s \<in> set ?ring. s \<noteq> ''''} - {?ring ! ?i})"
      using set_update_distinct[OF i dist x(1) fresh] .
    have S': "(if ?ring ! ?i \<noteq> '''' then dedup c - {?ring ! ?i} else dedup c) = {s \<in> set ?ring. s \<noteq> ''''} - {?ring ! ?i}"
      using eq by auto
    have step: "isDuplicate c x = Some (False, c\<lparr>dedup := insert x ({s \<in> set ?ring. s \<noteq> ''''} - {?ring ! ?i}),
        dedupRing := ?ring[?i := x], dedupIdx := (?i + 1) mod length ?ring\<rparr>)"
      using x i S' by (simp add: isDuplicate_def Let_def)
    have "dedup_inv (c\<lparr>dedup := insert x ({s \<in> set ?ring. s \<noteq> ''''} - {?ring ! ?i}),
        dedupRing := ?ring[?i := x], dedupIdx := (?i + 1) mod length ?ring\<rparr>)"
      using len D S by (simp add: dedup_inv_def dedupSize_def)
    with step show ?thesis by blast
  qed
qed

lemma ring_dist_wrap:
  fixes i j n :: nat
  assumes "i < n" "j \<le> i"
  shows "(i + n - j) mod n = i - j"
proof -
  have "i + n - j = n + (i - j)" using assms by simp
  moreover have "(n + (i - j)) mod n = (i - j) mod n" by (rule mod_add_self1)
  moreover have "(i - j) mod n = i - j" by (rule mod_less) (use assms in linarith)
  ultimately show ?thesis by (simp only:)
qed

lemma ring_dist_step:
  fixes i j n d :: nat
  assumes "i < n" "j < n" "(i + n - j) mod n = Suc d"
  shows "(i + n - (j + 1) mod n) mod n = d \<and> i \<noteq> j"
proof (cases "j \<le> i")
  case True
  have e: "i - j = Suc d" using ring_dist_wrap[OF assms(1) True] assms(3) by (simp only:)
  then have le: "j + 1 \<le> i" by simp
  then have "(j + 1) mod n = j + 1" using assms by simp
  then have "(i + n - (j + 1) mod n) mod n = i - (j + 1)"
    using ring_dist_wrap[OF assms(1) le] by (simp only:)
  then show ?thesis using e by linarith
next
  case False
  then have lt: "i + n - j < n" using assms by simp
  then have "(i + n - j) mod n = i + n - j" by (rule mod_less)
  then have e: "i + n - j = Suc d" using assms(3) by (simp only:)
  show ?thesis
  proof (cases "j + 1 < n")
    case True
    then have "(j + 1) mod n = j + 1" by simp
    moreover have "i + n - (j + 1) < n" using lt by simp
    then have "(i + n - (j + 1)) mod n = i + n - (j + 1)" by (rule mod_less)
    ultimately have "(i + n - (j + 1) mod n) mod n = i + n - (j + 1)" by (simp only:)
    then show ?thesis using e False by linarith
  next
    case F: False
    then have jn: "j + 1 = n" using assms by simp
    then have "(j + 1) mod n = 0" by simp
    then have "(i + n - (j + 1) mod n) mod n = (i + n) mod n" by (simp only: diff_zero)
    also have "\<dots> = i" using assms(1) by simp
    finally show ?thesis using e jn False by linarith
  qed
qed

lemma ring_dist_zero:
  fixes i j n :: nat
  assumes "i < n" "j < n" "(i + n - j) mod n = 0"
  shows "j = i"
proof (cases "j \<le> i")
  case True
  have "i - j = 0" using ring_dist_wrap[OF assms(1) True] assms(3) by (simp only:)
  then show ?thesis using True by simp
next
  case False
  then have lt: "i + n - j < n" "0 < i + n - j" using assms by simp_all
  then have "(i + n - j) mod n = i + n - j" by simp
  then show ?thesis using assms(3) lt(2) by linarith
qed

lemma isDuplicate_insert:
  assumes "x \<noteq> ''''" "x \<noteq> ''0''" "x \<notin> dedup c" "dedupIdx c < length (dedupRing c)"
  shows "isDuplicate c x = Some (False,
           c\<lparr>dedup := insert x (if dedupRing c ! dedupIdx c \<noteq> ''''
                                then dedup c - {dedupRing c ! dedupIdx c} else dedup c),
             dedupRing := (dedupRing c)[dedupIdx c := x],
             dedupIdx := (dedupIdx c + 1) mod length (dedupRing c)\<rparr>)"
  using assms by (simp add: isDuplicate_def Let_def)

lemma isDuplicate_True:
  assumes "isDuplicate c y = Some (True, c')"
  shows "c' = c \<and> y \<in> dedup c"
  using assms by (auto simp: isDuplicate_def Let_def split: if_splits)

lemma isDuplicate_False:
  assumes "isDuplicate c y = Some (False, c')" "y \<noteq> ''''" "y \<noteq> ''0''"
  shows "y \<notin> dedup c \<and> dedupIdx c < length (dedupRing c)"
  using assms by (auto simp: isDuplicate_def Let_def split: if_splits)

lemma in_dedup_slot:
  assumes "dedup_inv c" "i < dedupSize" "dedupRing c ! i = x" "x \<noteq> ''''"
  shows "x \<in> dedup c"
proof -
  from assms(1) have len: "length (dedupRing c) = dedupSize"
    and eq: "dedup c = {s \<in> set (dedupRing c). s \<noteq> ''''}"
    by (simp_all add: dedup_inv_def)
  have "dedupRing c ! i \<in> set (dedupRing c)"
    by (rule nth_mem) (simp add: len assms(2))
  then show ?thesis
    unfolding eq using assms(3,4) by simp
qed

lemma survive_step:
  assumes inv: "dedup_inv c" and i: "i < dedupSize" and at: "dedupRing c ! i = x" and x: "x \<noteq> ''''"
    and d: "slot_dist i c = Suc d" and call: "isDuplicate c y = Some (r, c')"
  shows "dedupRing c' ! i = x \<and> d \<le> slot_dist i c' \<and> (\<not> r \<and> y \<noteq> '''' \<and> y \<noteq> ''0'' \<longrightarrow> slot_dist i c' = d)"
proof (cases "y = '''' \<or> y = ''0'' \<or> y \<in> dedup c")
  case True
  then have "c' = c" using call by (auto simp: isDuplicate_def split: if_splits)
  moreover have "r" if "y \<noteq> ''''" "y \<noteq> ''0''"
    using that True call by (auto simp: isDuplicate_def split: if_splits)
  ultimately show ?thesis using at d by auto
next
  case False
  from inv have len: "length (dedupRing c) = dedupSize" and idx: "dedupIdx c < dedupSize"
    by (simp_all add: dedup_inv_def)
  have c': "c' = c\<lparr>dedup := insert y (if dedupRing c ! dedupIdx c \<noteq> ''''
                                then dedup c - {dedupRing c ! dedupIdx c} else dedup c),
             dedupRing := (dedupRing c)[dedupIdx c := y],
             dedupIdx := (dedupIdx c + 1) mod length (dedupRing c)\<rparr>"
    using call isDuplicate_insert[of y c] False len idx by simp
  have ne: "i \<noteq> dedupIdx c" and d': "slot_dist i c' = d"
    using ring_dist_step[OF i idx d[unfolded slot_dist_def]]
    by (simp_all add: c' slot_dist_def len)
  show ?thesis using ne at d' by (simp add: c')
qed

lemma evict_step:
  assumes inv: "dedup_inv c" and i: "i < dedupSize" and at: "dedupRing c ! i = x" and x: "x \<noteq> ''''"
    and d: "slot_dist i c = 0" and call: "isDuplicate c y = Some (False, c')"
    and y: "y \<noteq> ''''" "y \<noteq> ''0''" "y \<noteq> x"
  shows "x \<notin> dedup c'"
proof -
  from inv have len: "length (dedupRing c) = dedupSize" and idx: "dedupIdx c < dedupSize"
    by (simp_all add: dedup_inv_def)
  have "(i + dedupSize - dedupIdx c) mod dedupSize = 0" using d by (simp add: slot_dist_def)
  then have ii: "dedupIdx c = i" using ring_dist_zero[OF i idx] by simp
  have fresh: "y \<notin> dedup c" using isDuplicate_False[OF call y(1,2)] by simp
  have "c' = c\<lparr>dedup := insert y (if dedupRing c ! dedupIdx c \<noteq> ''''
                                then dedup c - {dedupRing c ! dedupIdx c} else dedup c),
             dedupRing := (dedupRing c)[dedupIdx c := y],
             dedupIdx := (dedupIdx c + 1) mod length (dedupRing c)\<rparr>"
    using call isDuplicate_insert[OF y(1,2) fresh] len idx by simp
  then have "dedup c' = insert y (dedup c - {x})"
    using ii at x by simp
  then show ?thesis using y(3) by simp
qed

subsection \<open>Sequences of calls\<close>

lemma isDuplicate_calls_inv:
  assumes "dedup_inv c"
  shows "\<exists>rs c'. isDuplicate_calls c ids = Some (rs, c') \<and> dedup_inv c' \<and> length rs = length ids"
  using assms
proof (induction ids arbitrary: c)
  case Nil
  then show ?case by simp
next
  case (Cons x xs)
  from isDuplicate_inv[OF Cons.prems, of x] obtain r c1
    where 1: "isDuplicate c x = Some (r, c1)" "dedup_inv c1" by blast
  from Cons.IH[OF 1(2)] obtain rs c2
    where 2: "isDuplicate_calls c1 xs = Some (rs, c2)" "dedup_inv c2" "length rs = length xs" by blast
  show ?case using 1 2 by simp
qed

lemma isDuplicate_calls_Cons:
  assumes "isDuplicate_calls c (y # ys) = Some (rs, c')"
  obtains r c1 rs' where "isDuplicate c y = Some (r, c1)" "isDuplicate_calls c1 ys = Some (rs', c')" "rs = r # rs'"
  using assms by (auto split: option.splits prod.splits)

text \<open>An id held in slot \<open>i\<close> outlives any sequence of at most \<open>slot_dist i\<close> calls.\<close>

lemma survive_calls:
  assumes "dedup_inv c" "i < dedupSize" "dedupRing c ! i = x" "x \<noteq> ''''"
    "length ys \<le> slot_dist i c" "isDuplicate_calls c ys = Some (rs, c')"
  shows "dedupRing c' ! i = x \<and> dedup_inv c' \<and> x \<in> dedup c'"
  using assms
proof (induction ys arbitrary: c rs)
  case Nil
  then show ?case using in_dedup_slot[of c i x] by simp
next
  case (Cons y ys)
  from Cons.prems(6) obtain r c1 rs' where
    1: "isDuplicate c y = Some (r, c1)" and 2: "isDuplicate_calls c1 ys = Some (rs', c')"
    by (rule isDuplicate_calls_Cons)
  from Cons.prems(5) obtain d where d: "slot_dist i c = Suc d" "length ys \<le> d"
    by (cases "slot_dist i c") auto
  have s: "dedupRing c1 ! i = x" "d \<le> slot_dist i c1"
    using survive_step[OF Cons.prems(1-4) d(1) 1] by simp_all
  have inv1: "dedup_inv c1" using isDuplicate_inv[OF Cons.prems(1), of y] 1 by simp
  show ?case
    using Cons.IH[OF inv1 Cons.prems(2) s(1) Cons.prems(4) _ 2] d(2) s(2) by simp
qed

text \<open>It is gone after exactly \<open>slot_dist i + 1\<close> insertions of other ids.\<close>

lemma evict_calls:
  assumes "dedup_inv c" "i < dedupSize" "dedupRing c ! i = x" "x \<noteq> ''''"
    "length ys = Suc (slot_dist i c)" "isDuplicate_calls c ys = Some (replicate (length ys) False, c')"
    "x \<notin> set ys" "'''' \<notin> set ys" "''0'' \<notin> set ys"
  shows "x \<notin> dedup c' \<and> dedup_inv c'"
  using assms
proof (induction ys arbitrary: c)
  case Nil
  then show ?case by simp
next
  case (Cons y ys)
  from Cons.prems(6) obtain r c1 rs' where
    1: "isDuplicate c y = Some (r, c1)" and 2: "isDuplicate_calls c1 ys = Some (rs', c')"
    and 3: "replicate (length (y # ys)) False = r # rs'"
    by (rule isDuplicate_calls_Cons)
  from 3 have r: "r = False" and rs': "rs' = replicate (length ys) False" by simp_all
  have y: "y \<noteq> ''''" "y \<noteq> ''0''" "y \<noteq> x" using Cons.prems(7-9) by auto
  have inv1: "dedup_inv c1" using isDuplicate_inv[OF Cons.prems(1), of y] 1 by simp
  show ?case
  proof (cases ys)
    case Nil
    then have "slot_dist i c = 0" using Cons.prems(5) by simp
    from evict_step[OF Cons.prems(1-4) this 1[unfolded r] y]
    show ?thesis using Nil 2 inv1 by simp
  next
    case (Cons z zs)
    then obtain d where d: "slot_dist i c = Suc d" "length ys = Suc d"
      using Cons.prems(5) by auto
    have s: "dedupRing c1 ! i = x" "slot_dist i c1 = d"
      using survive_step[OF Cons.prems(1-4) d(1) 1] r y by simp_all
    show ?thesis
      using Cons.IH[OF inv1 Cons.prems(2) s(1) Cons.prems(4) _ 2[unfolded rs']] d(2) s(2) Cons.prems(7-9)
      by simp
  qed
qed

text \<open>Ids that are new to the window, pairwise distinct and real are all inserted.\<close>

lemma fresh_calls:
  assumes "dedup_inv c" "distinct ys" "set ys \<inter> dedup c = {}" "'''' \<notin> set ys" "''0'' \<notin> set ys"
  shows "\<exists>c'. isDuplicate_calls c ys = Some (replicate (length ys) False, c') \<and> dedup c' \<subseteq> dedup c \<union> set ys"
  using assms
proof (induction ys arbitrary: c)
  case Nil
  then show ?case by simp
next
  case (Cons y ys)
  have y: "y \<noteq> ''''" "y \<noteq> ''0''" "y \<notin> dedup c" using Cons.prems by auto
  from Cons.prems(1) have idx: "dedupIdx c < length (dedupRing c)" by (simp add: dedup_inv_def)
  note step = isDuplicate_insert[OF y idx]
  let ?c1 = "c\<lparr>dedup := insert y (if dedupRing c ! dedupIdx c \<noteq> ''''
                                then dedup c - {dedupRing c ! dedupIdx c} else dedup c),
             dedupRing := (dedupRing c)[dedupIdx c := y],
             dedupIdx := (dedupIdx c + 1) mod length (dedupRing c)\<rparr>"
  have inv1: "dedup_inv ?c1" using isDuplicate_inv[OF Cons.prems(1), of y] step by simp
  have sub: "dedup ?c1 \<subseteq> insert y (dedup c)" by auto
  have disj: "set ys \<inter> dedup ?c1 = {}" using sub Cons.prems(2,3) by auto
  from Cons.IH[OF inv1 _ disj] Cons.prems obtain c' where
    c': "isDuplicate_calls ?c1 ys = Some (replicate (length ys) False, c')" "dedup c' \<subseteq> dedup ?c1 \<union> set ys"
    by auto
  have "dedup c' \<subseteq> dedup c \<union> set (y # ys)" using c'(2) sub by auto
  then show ?case using step c'(1) by simp
qed

lemma first_call_slot:
  assumes inv: "dedup_inv c" and x: "x \<noteq> ''''" "x \<noteq> ''0''"
    and call: "isDuplicate c x = Some (False, c1)"
  shows "dedup_inv c1 \<and> dedupIdx c < dedupSize \<and> dedupRing c1 ! dedupIdx c = x \<and>
         slot_dist (dedupIdx c) c1 = dedupSize - 1"
proof -
  from inv have len: "length (dedupRing c) = dedupSize" and idx: "dedupIdx c < dedupSize"
    by (simp_all add: dedup_inv_def)
  have fresh: "x \<notin> dedup c" using isDuplicate_False[OF call x] by simp
  have c1: "c1 = c\<lparr>dedup := insert x (if dedupRing c ! dedupIdx c \<noteq> ''''
                                then dedup c - {dedupRing c ! dedupIdx c} else dedup c),
             dedupRing := (dedupRing c)[dedupIdx c := x],
             dedupIdx := (dedupIdx c + 1) mod length (dedupRing c)\<rparr>"
    using call isDuplicate_insert[OF x fresh] len idx by simp
  have inv1: "dedup_inv c1" using isDuplicate_inv[OF inv, of x] call by simp
  have at: "dedupRing c1 ! dedupIdx c = x" using len idx by (simp add: c1)
  have "(dedupIdx c + dedupSize - (dedupIdx c + 1) mod dedupSize) mod dedupSize = dedupSize - 1"
  proof (cases "dedupIdx c + 1 < dedupSize")
    case True
    then have "(dedupIdx c + 1) mod dedupSize = dedupIdx c + 1" by simp
    moreover have "dedupIdx c + dedupSize - (dedupIdx c + 1) = dedupSize - 1" by simp
    moreover have "(dedupSize - 1) mod dedupSize = dedupSize - 1" using idx by simp
    ultimately show ?thesis by (simp only:)
  next
    case False
    then have e: "dedupIdx c + 1 = dedupSize" using idx by simp
    then have "(dedupIdx c + 1) mod dedupSize = 0" by simp
    then have "(dedupIdx c + dedupSize - (dedupIdx c + 1) mod dedupSize) mod dedupSize
        = (dedupIdx c + dedupSize) mod dedupSize" by (simp only: diff_zero)
    also have "\<dots> = dedupIdx c" using idx by simp
    finally show ?thesis using e by simp
  qed
  then have "slot_dist (dedupIdx c) c1 = dedupSize - 1"
    by (simp add: slot_dist_def c1 len)
  with inv1 idx at show ?thesis by simp
qed

lemma sample_ids_props:
  "length (sample_ids n) = n" "distinct (sample_ids n)"
  "'''' \<notin> set (sample_ids n)" "''0'' \<notin> set (sample_ids n)" "''x'' \<notin> set (sample_ids n)"
proof -
  have inj: "inj_on (\<lambda>k. CHR ''m'' # replicate k CHR ''m'') A" for A
  proof (rule inj_onI)
    fix j k assume "CHR ''m'' # replicate j CHR ''m'' = CHR ''m'' # replicate k CHR ''m''"
    then have "length (replicate j CHR ''m'') = length (replicate k CHR ''m'')" by simp
    then show "j = k" by simp
  qed
  show "length (sample_ids n) = n" by (simp add: sample_ids_def)
  show "distinct (sample_ids n)" by (simp add: sample_ids_def distinct_map inj)
  have m: "hd s = CHR ''m'' \<and> s \<noteq> []" if "s \<in> set (sample_ids n)" for s
    using that by (auto simp: sample_ids_def)
  show "'''' \<notin> set (sample_ids n)" using m by blast
  show "''0'' \<notin> set (sample_ids n)" using m[of "''0''"] by auto
  show "''x'' \<notin> set (sample_ids n)" using m[of "''x''"] by auto
qed

text \<open>Filling an empty ring: the ids go into the slots in order.\<close>

lemma fill_calls:
  assumes "distinct (pre @ ys)" "'''' \<notin> set (pre @ ys)" "''0'' \<notin> set (pre @ ys)"
    "length pre + length ys \<le> dedupSize"
  shows "isDuplicate_calls
           (b\<lparr>dedup := set pre, dedupRing := pre @ replicate (dedupSize - length pre) '''',
              dedupIdx := length pre mod dedupSize\<rparr>) ys =
         Some (replicate (length ys) False,
           b\<lparr>dedup := set (pre @ ys),
             dedupRing := pre @ ys @ replicate (dedupSize - length pre - length ys) '''',
             dedupIdx := (length pre + length ys) mod dedupSize\<rparr>)"
  using assms
proof (induction ys arbitrary: pre)
  case Nil
  then show ?case by simp
next
  case (Cons y ys)
  let ?c = "b\<lparr>dedup := set pre, dedupRing := pre @ replicate (dedupSize - length pre) '''',
              dedupIdx := length pre mod dedupSize\<rparr>"
  have lt: "length pre < dedupSize" using Cons.prems(4) by simp
  then obtain k where k: "dedupSize - length pre = Suc k" by (cases "dedupSize - length pre") auto
  have m: "length pre mod dedupSize = length pre" using lt by simp
  have idx: "dedupIdx ?c = length pre" using m by simp
  have y: "y \<noteq> ''''" "y \<noteq> ''0''" "y \<notin> dedup ?c" using Cons.prems(1-3) by auto
  have i: "dedupIdx ?c < length (dedupRing ?c)" using lt by simp
  have old: "(pre @ replicate (dedupSize - length pre) '''') ! length pre = ''''"
    by (simp add: k nth_append)
  have upd: "(pre @ replicate (dedupSize - length pre) '''')[length pre := y] =
      pre @ y # replicate (dedupSize - Suc (length pre)) ''''"
    using k by (simp add: list_update_append)
  have step: "isDuplicate ?c y = Some (False,
      b\<lparr>dedup := set (pre @ [y]),
        dedupRing := (pre @ [y]) @ replicate (dedupSize - length (pre @ [y])) '''',
        dedupIdx := length (pre @ [y]) mod dedupSize\<rparr>)"
    using isDuplicate_insert[OF y i] lt by (simp add: m old upd)
  have p: "distinct ((pre @ [y]) @ ys)" "'''' \<notin> set ((pre @ [y]) @ ys)"
    "''0'' \<notin> set ((pre @ [y]) @ ys)" "length (pre @ [y]) + length ys \<le> dedupSize"
    using Cons.prems by simp_all
  show ?case
    unfolding isDuplicate_calls.simps step using Cons.IH[OF p] by simp
qed

lemma full_ring:
  "isDuplicate_calls (NewOneBotChannel cfg) (sample_ids 1024) =
     Some (replicate 1024 False,
           (NewOneBotChannel cfg)\<lparr>dedup := set (sample_ids 1024), dedupRing := sample_ids 1024\<rparr>)"
proof -
  have h: "distinct ([] @ sample_ids 1024)" "'''' \<notin> set ([] @ sample_ids 1024)"
    "''0'' \<notin> set ([] @ sample_ids 1024)"
    "length ([] :: string list) + length (sample_ids 1024) \<le> dedupSize"
    by (simp_all add: sample_ids_props dedupSize_def)
  from fill_calls[OF h, of "NewOneBotChannel cfg"] show ?thesis
    by (simp add: sample_ids_props dedupSize_def NewOneBotChannel_def)
qed

subsection \<open>The deduplication window: claims C2, C3 and C4\<close>

text \<open>
  C4: \<open>isDuplicate("")\<close> and \<open>isDuplicate("0")\<close> return false in every state of the
  channel and leave the whole channel, so the presence set, the ring and the cursor,
  as it was.
\<close>

theorem isDuplicate_no_id:
  "isDuplicate c '''' = Some (False, c) \<and> isDuplicate c ''0'' = Some (False, c)"
  by (simp add: isDuplicate_def)

text \<open>
  C2: let \<open>x\<close> be an id other than \<open>""\<close> and \<open>"0"\<close> that a first call has recorded
  (the call answered false in a state of the invariant). Then a second call answers
  true, and so does a call after any fewer than 1024 calls in between, whatever their
  ids: \<open>x\<close> cannot be evicted earlier. After 1024 insertions (calls that each
  answered false) of ids that are pairwise distinct, different from \<open>x\<close>, and
  neither \<open>""\<close> nor \<open>"0"\<close>, a call with \<open>x\<close> answers false again.
\<close>

theorem dedup_window:
  assumes inv: "dedup_inv c" and x: "x \<noteq> ''''" "x \<noteq> ''0''"
    and first: "isDuplicate c x = Some (False, c1)"
  shows "isDuplicate c1 x = Some (True, c1) \<and>
    (\<forall>zs rs c2. length zs < 1024 \<and> isDuplicate_calls c1 zs = Some (rs, c2)
        \<longrightarrow> isDuplicate c2 x = Some (True, c2)) \<and>
    (\<forall>ys c3. length ys = 1024 \<and> distinct ys \<and> x \<notin> set ys \<and> '''' \<notin> set ys \<and> ''0'' \<notin> set ys \<and>
        isDuplicate_calls c1 ys = Some (replicate 1024 False, c3)
        \<longrightarrow> (\<exists>c4. isDuplicate c3 x = Some (False, c4)))"
proof -
  let ?i = "dedupIdx c"
  from first_call_slot[OF inv x first]
  have inv1: "dedup_inv c1" and i: "?i < dedupSize" and at: "dedupRing c1 ! ?i = x"
    and dist: "slot_dist ?i c1 = dedupSize - 1" by simp_all
  have dup: "isDuplicate c' x = Some (True, c')" if "x \<in> dedup c'" for c'
    using that x by (simp add: isDuplicate_def)
  have A: "isDuplicate c1 x = Some (True, c1)"
    using dup in_dedup_slot[OF inv1 i at x(1)] by simp
  have B: "isDuplicate c2 x = Some (True, c2)"
    if "length zs < 1024" "isDuplicate_calls c1 zs = Some (rs, c2)" for zs rs c2
  proof -
    have "length zs \<le> slot_dist ?i c1" using that(1) dist by (simp add: dedupSize_def)
    from survive_calls[OF inv1 i at x(1) this that(2)] show ?thesis using dup by simp
  qed
  have C: "\<exists>c4. isDuplicate c3 x = Some (False, c4)"
    if "length ys = 1024" "x \<notin> set ys" "'''' \<notin> set ys" "''0'' \<notin> set ys"
      "isDuplicate_calls c1 ys = Some (replicate 1024 False, c3)" for ys c3
  proof -
    have l: "length ys = Suc (slot_dist ?i c1)" using that(1) dist by (simp add: dedupSize_def)
    have r: "isDuplicate_calls c1 ys = Some (replicate (length ys) False, c3)"
      using that(1,5) by simp
    from evict_calls[OF inv1 i at x(1) l r that(2-4)]
    have gone: "x \<notin> dedup c3" and inv3: "dedup_inv c3" by simp_all
    from inv3 have "dedupIdx c3 < length (dedupRing c3)" by (simp add: dedup_inv_def)
    from isDuplicate_insert[OF x gone this] show ?thesis by blast
  qed
  from A B C show ?thesis by blast
qed

theorem dedup_window_witness:
  "\<exists>c1 rs c2 c3.
     dedup_inv (NewOneBotChannel example_config) \<and> ''x'' \<noteq> '''' \<and> ''x'' \<noteq> ''0'' \<and>
     isDuplicate (NewOneBotChannel example_config) ''x'' = Some (False, c1) \<and>
     isDuplicate c1 ''x'' = Some (True, c1) \<and>
     length [''y'', ''x'', '''', ''z''] < (1024::nat) \<and>
     isDuplicate_calls c1 [''y'', ''x'', '''', ''z''] = Some (rs, c2) \<and>
     isDuplicate c2 ''x'' = Some (True, c2) \<and>
     length (sample_ids 1024) = 1024 \<and> distinct (sample_ids 1024) \<and>
     ''x'' \<notin> set (sample_ids 1024) \<and> '''' \<notin> set (sample_ids 1024) \<and>
     ''0'' \<notin> set (sample_ids 1024) \<and>
     isDuplicate_calls c1 (sample_ids 1024) = Some (replicate 1024 False, c3) \<and>
     (\<exists>c4. isDuplicate c3 ''x'' = Some (False, c4))"
proof -
  let ?c = "NewOneBotChannel example_config"
  have inv: "dedup_inv ?c" by (rule dedup_inv_init)
  have x: "''x'' \<noteq> ''''" "''x'' \<noteq> ''0''" by simp_all
  have "''x'' \<notin> dedup ?c" "dedupIdx ?c < length (dedupRing ?c)"
    by (simp_all add: NewOneBotChannel_def dedupSize_def)
  from isDuplicate_insert[OF x this] obtain c1 where
    first: "isDuplicate ?c ''x'' = Some (False, c1)"
    and d1: "dedup c1 = {''x''}"
    by (simp add: NewOneBotChannel_def dedupSize_def)
  have inv1: "dedup_inv c1" using isDuplicate_inv[OF inv, of "''x''"] first by simp
  from isDuplicate_calls_inv[OF inv1, of "[''y'', ''x'', '''', ''z'']"] obtain rs c2 where
    zs: "isDuplicate_calls c1 [''y'', ''x'', '''', ''z''] = Some (rs, c2)" by blast
  have "set (sample_ids 1024) \<inter> dedup c1 = {}"
    using sample_ids_props(5)[of 1024] by (simp add: d1)
  from fresh_calls[OF inv1 sample_ids_props(2) this sample_ids_props(3,4)] obtain c3 where
    ys: "isDuplicate_calls c1 (sample_ids 1024) = Some (replicate 1024 False, c3)"
    by (auto simp: sample_ids_props(1))
  note w = dedup_window[OF inv x first]
  from w have A: "isDuplicate c1 ''x'' = Some (True, c1)" by blast
  have l: "length [''y'', ''x'', '''', ''z''] < (1024::nat)" by simp
  from w[THEN conjunct2, THEN conjunct1, rule_format, OF conjI[OF l zs]]
  have B: "isDuplicate c2 ''x'' = Some (True, c2)" .
  have h: "length (sample_ids 1024) = 1024 \<and> distinct (sample_ids 1024) \<and>
     ''x'' \<notin> set (sample_ids 1024) \<and> '''' \<notin> set (sample_ids 1024) \<and>
     ''0'' \<notin> set (sample_ids 1024) \<and>
     isDuplicate_calls c1 (sample_ids 1024) = Some (replicate 1024 False, c3)"
    using ys sample_ids_props[of 1024] by simp
  from w[THEN conjunct2, THEN conjunct2, rule_format, OF h]
  have C: "\<exists>c4. isDuplicate c3 ''x'' = Some (False, c4)" .
  show ?thesis
    using inv first A zs B h C
    by (intro exI[of _ c1] exI[of _ rs] exI[of _ c2] exI[of _ c3]) simp
qed

text \<open>
  C3: the invariant holds in the initial state and every \<open>isDuplicate\<close> call, which
  never panics in a state of the invariant, preserves it. In every such state the
  presence set holds exactly the ids of the non-empty slots, its size is the number of
  non-empty slots, and that is at most 1024. An insertion into a full slot takes the
  evicted id out of the set and puts the new id into the slot and into the set, in the
  one call; the size of the set stays as it was.
\<close>

theorem dedup_invariant:
  "dedup_inv (NewOneBotChannel p) \<and>
   (\<forall>c x. dedup_inv c \<longrightarrow>
      dedup c = {s \<in> set (dedupRing c). s \<noteq> ''''} \<and>
      card (dedup c) = length (filter (\<lambda>s. s \<noteq> '''') (dedupRing c)) \<and>
      card (dedup c) \<le> 1024 \<and>
      (\<exists>r c'. isDuplicate c x = Some (r, c') \<and> dedup_inv c') \<and>
      (x \<noteq> '''' \<and> x \<noteq> ''0'' \<and> x \<notin> dedup c \<and> dedupRing c ! dedupIdx c \<noteq> '''' \<longrightarrow>
         (\<exists>c'. isDuplicate c x = Some (False, c') \<and>
               dedupRing c' = (dedupRing c)[dedupIdx c := x] \<and>
               dedup c' = insert x (dedup c - {dedupRing c ! dedupIdx c}) \<and>
               dedupRing c ! dedupIdx c \<notin> dedup c' \<and> x \<in> dedup c' \<and>
               card (dedup c') = card (dedup c))))"
proof (intro conjI allI impI)
  show "dedup_inv (NewOneBotChannel p)" by (rule dedup_inv_init)
next
  fix c x assume inv: "dedup_inv c"
  then have len: "length (dedupRing c) = dedupSize" and idx: "dedupIdx c < dedupSize"
    and dist: "distinct (filter (\<lambda>s. s \<noteq> '''') (dedupRing c))"
    and eq: "dedup c = {s \<in> set (dedupRing c). s \<noteq> ''''}"
    by (simp_all add: dedup_inv_def)
  show "dedup c = {s \<in> set (dedupRing c). s \<noteq> ''''}" by (rule eq)
  have eq': "dedup c = set (filter (\<lambda>s. s \<noteq> '''') (dedupRing c))" using eq by auto
  show card: "card (dedup c) = length (filter (\<lambda>s. s \<noteq> '''') (dedupRing c))"
    unfolding eq' using dist by (rule distinct_card)
  have "length (filter (\<lambda>s. s \<noteq> '''') (dedupRing c)) \<le> length (dedupRing c)"
    by (rule length_filter_le)
  then show "card (dedup c) \<le> 1024" using card len by (simp add: dedupSize_def)
  show "\<exists>r c'. isDuplicate c x = Some (r, c') \<and> dedup_inv c'" by (rule isDuplicate_inv[OF inv])
next
  fix c x
  assume inv: "dedup_inv c"
    and h: "x \<noteq> '''' \<and> x \<noteq> ''0'' \<and> x \<notin> dedup c \<and> dedupRing c ! dedupIdx c \<noteq> ''''"
  let ?old = "dedupRing c ! dedupIdx c"
  from inv have len: "length (dedupRing c) = dedupSize" and idx: "dedupIdx c < dedupSize"
    by (simp_all add: dedup_inv_def)
  from h have x: "x \<noteq> ''''" "x \<noteq> ''0''" "x \<notin> dedup c" and old: "?old \<noteq> ''''" by simp_all
  have i: "dedupIdx c < length (dedupRing c)" using len idx by simp
  have oldin: "?old \<in> dedup c" using in_dedup_slot[OF inv idx refl old] .
  have fin: "finite (dedup c)" using inv by (simp add: dedup_inv_def)
  let ?c' = "c\<lparr>dedup := insert x (dedup c - {?old}), dedupRing := (dedupRing c)[dedupIdx c := x],
             dedupIdx := (dedupIdx c + 1) mod length (dedupRing c)\<rparr>"
  have step: "isDuplicate c x = Some (False, ?c')"
    using isDuplicate_insert[OF x i] old by simp
  have ne: "?old \<noteq> x" using oldin x(3) by auto
  have "card (insert x (dedup c - {?old})) = Suc (card (dedup c - {?old}))"
    using fin x(3) by simp
  also have "\<dots> = card (dedup c)"
    using fin oldin by (rule card_Suc_Diff1)
  finally have "card (insert x (dedup c - {?old})) = card (dedup c)" .
  then show "\<exists>c'. isDuplicate c x = Some (False, c') \<and>
               dedupRing c' = (dedupRing c)[dedupIdx c := x] \<and>
               dedup c' = insert x (dedup c - {dedupRing c ! dedupIdx c}) \<and>
               dedupRing c ! dedupIdx c \<notin> dedup c' \<and> x \<in> dedup c' \<and>
               card (dedup c') = card (dedup c)"
    using step ne by (intro exI[of _ ?c']) simp
qed

text \<open>
  An example: 1024 ids fill the ring of a new channel; the next id then evicts the first
  of them, and the set still has 1024 elements.
\<close>

theorem dedup_invariant_witness:
  "dedup_inv (NewOneBotChannel example_config) \<and>
   (\<exists>c. isDuplicate_calls (NewOneBotChannel example_config) (sample_ids 1024)
           = Some (replicate 1024 False, c) \<and>
        dedup_inv c \<and> card (dedup c) = 1024 \<and> dedupRing c ! dedupIdx c = ''m'' \<and>
        ''x'' \<noteq> '''' \<and> ''x'' \<noteq> ''0'' \<and> ''x'' \<notin> dedup c \<and>
        (\<exists>c'. isDuplicate c ''x'' = Some (False, c') \<and> ''m'' \<notin> dedup c' \<and> ''x'' \<in> dedup c' \<and>
              dedupRing c' ! 0 = ''x'' \<and> card (dedup c') = 1024))"
proof -
  let ?new = "NewOneBotChannel example_config"
  let ?c = "?new\<lparr>dedup := set (sample_ids 1024), dedupRing := sample_ids 1024\<rparr>"
  note t = dedup_invariant[of example_config]
  from t have inv0: "dedup_inv ?new" by (rule conjunct1)
  have run: "isDuplicate_calls ?new (sample_ids 1024) = Some (replicate 1024 False, ?c)"
    by (rule full_ring)
  from isDuplicate_calls_inv[OF inv0, of "sample_ids 1024"] run
  have inv: "dedup_inv ?c" by simp
  have card: "card (dedup ?c) = 1024"
    using distinct_card[OF sample_ids_props(2)[of 1024]] by (simp add: sample_ids_props(1))
  have idx0: "dedupIdx ?new = 0" by (simp add: NewOneBotChannel_def)
  have old0: "sample_ids 1024 ! 0 = ''m''" by (simp add: sample_ids_def)
  have idx: "dedupIdx ?c = 0" by (simp add: idx0)
  have old: "dedupRing ?c ! dedupIdx ?c = ''m''" by (simp add: idx0 old0)
  have x: "''x'' \<noteq> '''' \<and> ''x'' \<noteq> ''0'' \<and> ''x'' \<notin> dedup ?c \<and> dedupRing ?c ! dedupIdx ?c \<noteq> ''''"
    using sample_ids_props(5)[of 1024] by (simp add: idx0 old0)
  note u = t[THEN conjunct2, rule_format, OF inv, of "''x''"]
  from u[THEN conjunct2, THEN conjunct2, THEN conjunct2, THEN conjunct2, rule_format, OF x]
  obtain c' where c': "isDuplicate ?c ''x'' = Some (False, c')"
    "dedupRing c' = (dedupRing ?c)[dedupIdx ?c := ''x'']"
    "dedupRing ?c ! dedupIdx ?c \<notin> dedup c'" "''x'' \<in> dedup c'"
    "card (dedup c') = card (dedup ?c)" by blast
  have r0: "dedupRing c' ! 0 = ''x''"
    unfolding c'(2) idx by (simp add: sample_ids_props(1))
  have "\<exists>c'. isDuplicate ?c ''x'' = Some (False, c') \<and> ''m'' \<notin> dedup c' \<and> ''x'' \<in> dedup c' \<and>
              dedupRing c' ! 0 = ''x'' \<and> card (dedup c') = 1024"
    using c'(1,3,4,5) r0 old card by (intro exI[of _ c']) simp
  with inv0 run inv card old x show ?thesis by blast
qed

subsection \<open>The library functions\<close>

lemma digit_cases:
  fixes d :: nat
  assumes "d < 10"
  shows "d = 0 \<or> d = 1 \<or> d = 2 \<or> d = 3 \<or> d = 4 \<or> d = 5 \<or> d = 6 \<or> d = 7 \<or> d = 8 \<or> d = 9"
  using assms by (auto simp: eval_nat_numeral less_Suc_eq)

lemma digit_char_props:
  assumes "d < 10"
  shows "is_digit (digit_char d)" "of_char (digit_char d) - 48 = d"
    "digit_char d \<noteq> CHR ''-''" "digit_char d \<noteq> CHR ''+''"
  using digit_cases[OF assms] by (auto simp: digit_char_def is_digit_def)

lemma ParseUint_loop_append:
  "ParseUint_loop n (xs @ ys) =
     (case ParseUint_loop n xs of (m, None) \<Rightarrow> ParseUint_loop m ys | (m, Some e) \<Rightarrow> (m, Some e))"
  by (induction xs arbitrary: n) (simp_all add: ParseUint_loop.simps Let_def)

lemma ParseUint_loop_digit:
  assumes "d < 10" "n * 10 + d \<le> maxUint64"
  shows "ParseUint_loop n [digit_char d] = (n * 10 + d, None)"
proof -
  have lt: "n * 10 + d < 2 ^ 64" "n * 10 < 2 ^ 64" using assms(2) by (simp_all add: maxUint64_def)
  have n: "\<not> maxUint64 div 10 + 1 \<le> n" using assms(2) by (simp add: maxUint64_def)
  have m1: "(n * 10) mod 2 ^ 64 = n * 10" using lt(2) by (rule mod_less)
  have m2: "(n * 10 + d) mod 2 ^ 64 = n * 10 + d" using lt(1) by (rule mod_less)
  have "ParseUint_loop n [digit_char d] =
      (let n10 = (n * 10) mod 2 ^ 64; n1 = (n10 + d) mod 2 ^ 64
       in if n1 < n10 \<or> maxUint64 < n1 then (maxUint64, Some ErrRange)
          else ParseUint_loop n1 [])"
    using n by (simp add: ParseUint_loop.simps digit_char_props[OF assms(1)] del: power_numeral)
  also have "\<dots> = (n * 10 + d, None)"
    unfolding m1 Let_def m2 using assms(2) by (simp add: ParseUint_loop.simps)
  finally show ?thesis .
qed

lemma FormatUint_nonempty: "FormatUint n \<noteq> []"
  by (subst FormatUint.simps) simp

lemma hd_FormatUint: "\<exists>d < 10. hd (FormatUint n) = digit_char d"
proof (induction n rule: FormatUint.induct)
  case (1 n)
  show ?case
  proof (cases "n < 10")
    case True
    then show ?thesis by (subst FormatUint.simps) auto
  next
    case False
    then have "hd (FormatUint n) = hd (FormatUint (n div 10))"
      by (subst FormatUint.simps) (simp add: FormatUint_nonempty)
    then show ?thesis using 1 False by simp
  qed
qed

lemma ParseUint_FormatUint:
  assumes "n \<le> maxUint64"
  shows "ParseUint_loop 0 (FormatUint n) = (n, None)"
  using assms
proof (induction n rule: FormatUint.induct)
  case (1 n)
  show ?case
  proof (cases "n < 10")
    case True
    have "ParseUint_loop 0 [digit_char n] = (0 * 10 + n, None)"
      by (rule ParseUint_loop_digit) (use True in \<open>simp_all add: maxUint64_def\<close>)
    then show ?thesis using True by (subst FormatUint.simps) simp
  next
    case False
    have le: "n div 10 \<le> maxUint64" using "1.prems" by simp
    have ih: "ParseUint_loop 0 (FormatUint (n div 10)) = (n div 10, None)"
      using "1.IH"[OF False le] .
    have d: "ParseUint_loop (n div 10) [digit_char (n mod 10)] = (n div 10 * 10 + n mod 10, None)"
      by (rule ParseUint_loop_digit) (use "1.prems" in simp_all)
    have "FormatUint n = FormatUint (n div 10) @ [digit_char (n mod 10)]"
      using False by (subst FormatUint.simps) simp
    then show ?thesis by (simp add: ParseUint_loop_append ih d)
  qed
qed

lemma ParseInt_FormatInt:
  assumes "- (2 ^ 63) \<le> i" "i < 2 ^ 63"
  shows "ParseInt (FormatInt i) = (i, None)"
proof (cases "i < 0")
  case True
  let ?n = "nat (- i)"
  have n: "?n \<le> 2 ^ 63" using assms(1) True by (simp add: nat_le_iff)
  then have "?n \<le> maxUint64" by (simp add: maxUint64_def)
  from ParseUint_FormatUint[OF this]
  have "ParseUint (FormatUint ?n) = (?n, None)" by (simp add: ParseUint_def FormatUint_nonempty)
  moreover have "\<not> 2 ^ 63 < ?n" using n by simp
  ultimately show ?thesis using True by (simp add: ParseInt_def FormatInt_def)
next
  case False
  let ?n = "nat i"
  have n: "?n < 2 ^ 63" using assms(2) False by (simp add: nat_less_iff)
  then have "?n \<le> maxUint64" by (simp add: maxUint64_def)
  from ParseUint_FormatUint[OF this]
  have p: "ParseUint (FormatUint ?n) = (?n, None)" by (simp add: ParseUint_def FormatUint_nonempty)
  obtain d where d: "d < 10" "hd (FormatUint ?n) = digit_char d" using hd_FormatUint by blast
  have h: "hd (FormatUint ?n) \<noteq> CHR ''-''" "hd (FormatUint ?n) \<noteq> CHR ''+''"
    using digit_char_props(3,4)[OF d(1)] d(2) by simp_all
  have "\<not> 2 ^ 63 \<le> ?n" using n by simp
  then show ?thesis using False p h by (simp add: ParseInt_def FormatInt_def FormatUint_nonempty)
qed

lemma ParseInt_ok_first:
  assumes "ParseInt s = (n, None)"
  shows "s \<noteq> [] \<and> (is_digit (hd s) \<or> hd s = CHR ''+'' \<or> hd s = CHR ''-'')"
proof (cases s)
  case Nil
  then show ?thesis using assms by (simp add: ParseInt_def)
next
  case (Cons a as)
  show ?thesis
  proof (rule ccontr)
    assume "\<not> ?thesis"
    then have a: "\<not> is_digit a" "a \<noteq> CHR ''+''" "a \<noteq> CHR ''-''" using Cons by auto
    then have "ParseInt s = (0, Some ErrSyntax)"
      using Cons by (simp add: ParseInt_def ParseUint_def ParseUint_loop.simps)
    then show False using assms by simp
  qed
qed

lemma not_digit_g: "\<not> is_digit CHR ''g''" "\<not> is_digit CHR ''p''"
  by (simp_all add: is_digit_def)

lemma TrimSpace_hello: "TrimSpace ''hello'' = ''hello''"
  by (simp add: TrimSpace_def strip_leading.simps leading_len_def space_runes_def HasPrefix_def)

lemma ParseInt_examples:
  "ParseInt ''456'' = (456, None)" "ParseInt ''abc'' = (0, Some ErrSyntax)"
  "ParseInt ''group:abc'' = (0, Some ErrSyntax)"
  by (simp_all add: ParseInt_def ParseUint_def ParseUint_loop.simps is_digit_def maxUint64_def)

lemma FormatInt_examples:
  "FormatInt 123 = ''123''" "FormatInt 5 = ''5''" "FormatInt 456 = ''456''"
  by (simp_all add: FormatInt_def FormatUint.simps digit_char_def)

lemma TrimSpace_examples:
  "TrimSpace '' 5 '' = ''5''" "TrimSpace '' hi'' = ''hi''"
  by (simp_all add: TrimSpace_def strip_leading.simps leading_len_def space_runes_def HasPrefix_def)

lemma ParseInt_examples2:
  "ParseInt '' 5 '' = (0, Some ErrSyntax)" "ParseInt ''5'' = (5, None)"
  "ParseInt ''123'' = (123, None)"
  "ParseInt ''9223372036854775808'' = (9223372036854775807, Some ErrRange)"
  by (simp_all add: ParseInt_def ParseUint_def ParseUint_loop.simps is_digit_def maxUint64_def)

lemma cqAt_5: "cqAt 5 = ''[CQ:at,qq=5]''"
  by (simp add: cqAt_def FormatInt_examples)

subsection \<open>Triggers and destinations\<close>

lemma prefix_loop_find:
  "prefix_loop ps content =
     (case find (\<lambda>p. p \<noteq> [] \<and> HasPrefix content p) ps of
        None \<Rightarrow> (False, content)
      | Some p \<Rightarrow> (True, TrimSpace (drop (length p) content)))"
  by (induction ps) (simp_all add: TrimPrefix_def)

lemma buildSendRequest_group:
  assumes "ParseInt sfx = (n, None)"
  shows "buildSendRequest \<lparr>msg_ChatID = ''group:'' @ sfx, msg_Content = m\<rparr> =
         Inr (''send_group_msg'', oneBotSendGroupMsgParams n m)"
proof -
  have "sfx \<noteq> []" using ParseInt_ok_first[OF assms] by simp
  then have "6 < length (''group:'' @ sfx)" by (cases sfx) simp_all
  then show ?thesis using assms by (simp add: buildSendRequest_def)
qed

lemma buildSendRequest_private:
  assumes "ParseInt sfx = (n, None)"
  shows "buildSendRequest \<lparr>msg_ChatID = ''private:'' @ sfx, msg_Content = m\<rparr> =
         Inr (''send_private_msg'', oneBotSendPrivateMsgParams n m)"
proof -
  have "sfx \<noteq> []" using ParseInt_ok_first[OF assms] by simp
  then have "8 < length (''private:'' @ sfx)" by (cases sfx) simp_all
  then show ?thesis using assms by (simp add: buildSendRequest_def)
qed

lemma buildSendRequest_bare:
  assumes "ParseInt cid = (n, None)"
  shows "buildSendRequest \<lparr>msg_ChatID = cid, msg_Content = m\<rparr> =
         Inr (''send_private_msg'', oneBotSendPrivateMsgParams n m)"
proof -
  from ParseInt_ok_first[OF assms] have h: "cid \<noteq> []"
    "is_digit (hd cid) \<or> hd cid = CHR ''+'' \<or> hd cid = CHR ''-''" by simp_all
  have g: "take 6 cid \<noteq> ''group:''"
  proof
    assume "take 6 cid = ''group:''"
    then have "hd cid = CHR ''g''" using h(1) by (cases cid) auto
    then show False using h(2) not_digit_g by auto
  qed
  have p: "take 8 cid \<noteq> ''private:''"
  proof
    assume "take 8 cid = ''private:''"
    then have "hd cid = CHR ''p''" using h(1) by (cases cid) auto
    then show False using h(2) not_digit_g by auto
  qed
  show ?thesis using g p assms by (simp add: buildSendRequest_def)
qed

lemma buildSendRequest_other:
  assumes "\<forall>sfx n. \<not> (cid = ''group:'' @ sfx \<and> ParseInt sfx = (n, None))"
    and "\<forall>sfx n. \<not> (cid = ''private:'' @ sfx \<and> ParseInt sfx = (n, None))"
    and "\<forall>n. ParseInt cid \<noteq> (n, None)"
  shows "isl (buildSendRequest \<lparr>msg_ChatID = cid, msg_Content = m\<rparr>)"
proof -
  have split: "cid = take k cid @ drop k cid" for k by simp
  have g: "ParseInt (drop 6 cid) \<noteq> (n, None)" if "take 6 cid = ''group:''" for n
    using assms(1) split[of 6] that by metis
  have p: "ParseInt (drop 8 cid) \<noteq> (n, None)" if "take 8 cid = ''private:''" for n
    using assms(2) split[of 8] that by metis
  show ?thesis
    using g p assms(3)
    by (auto simp: buildSendRequest_def Let_def split: prod.splits option.splits)
qed

subsection \<open>Coercion and normalization\<close>

lemma ParseInt_syntax_zero:
  assumes "snd (ParseInt s) = Some ErrSyntax"
  shows "fst (ParseInt s) = 0"
  using assms by (auto simp: ParseInt_def Let_def split: prod.splits if_splits)

lemma parseJSONInt64_error_iff:
  "snd (parseJSONInt64 raw) \<noteq> None \<longleftrightarrow>
     (\<exists>v. raw = Some v \<and> unmarshal_int64 v = None \<and>
          (case unmarshal_string v of None \<Rightarrow> True | Some s \<Rightarrow> snd (ParseInt s) \<noteq> None))"
  by (auto simp: parseJSONInt64_def split: option.splits prod.splits)

lemma parseJSONInt64_fail_zero:
  assumes "snd (parseJSONInt64 r) = Some e" "\<forall>s. e \<noteq> NumError ErrRange s"
  shows "fst (parseJSONInt64 r) = 0"
proof -
  have z: "n = 0" if "ParseInt s = (n, Some ErrSyntax)" for s n
    using ParseInt_syntax_zero[of s] that by simp
  have z': "n = 0" if "ParseInt s = (n, Some e')" "e' \<noteq> ErrRange" for s n e'
    using z[of s n] that by (cases e') auto
  from assms show ?thesis
    by (auto simp: parseJSONInt64_def split: option.splits prod.splits dest: z')
qed

lemma unmarshal_sender_not_object:
  assumes "\<forall>kvs. v \<noteq> JObject kvs"
  shows "snd (unmarshal_sender v) = empty_sender"
  using assms by (cases v) (simp_all add: unmarshal_sender_def)

lemma normalizeMessageEvent_Inl:
  "isl (normalizeMessageEvent L raw) \<longleftrightarrow> snd (parseJSONInt64 (raw_UserID raw)) \<noteq> None"
  by (auto simp: normalizeMessageEvent_def Let_def split: prod.splits option.splits)

lemma normalizeMessageEvent_Inr:
  assumes "snd (parseJSONInt64 (raw_UserID raw)) = None"
  shows "\<exists>evt. normalizeMessageEvent L raw = Inr evt \<and>
             UserID evt = fst (parseJSONInt64 (raw_UserID raw)) \<and>
             GroupID evt = fst (parseJSONInt64 (raw_GroupID raw)) \<and>
             SelfID evt = fst (parseJSONInt64 (raw_SelfID raw)) \<and>
             Time evt = fst (parseJSONInt64 (raw_Time raw)) \<and>
             Sender evt = (case raw_Sender raw of None \<Rightarrow> empty_sender
                           | Some v \<Rightarrow> snd (unmarshal_sender v)) \<and>
             Content evt =
               (let selfID = fst (parseJSONInt64 (raw_SelfID raw))
                in if raw_RawMessage raw = [] then Text (parseMessageContentEx L (raw_Message raw) selfID)
                   else if 0 < selfID \<and> Contains (raw_RawMessage raw) (cqAt selfID)
                   then TrimSpace (RemoveAll (raw_RawMessage raw) (cqAt selfID))
                   else raw_RawMessage raw)"
  using assms
  by (cases "parseJSONInt64 (raw_UserID raw)")
     (simp add: normalizeMessageEvent_def Let_def split: prod.splits)

subsection \<open>The echo counter\<close>

lemma sint_of_nat_small:
  assumes "k < 2 ^ 63"
  shows "sint (of_nat k :: 64 word) = int k"
proof -
  have "signed_take_bit 63 (int k) = int k"
    by (rule signed_take_bit_int_eq_self) (use assms in \<open>simp_all add: of_nat_less_iff[of k "2 ^ 63", where ?'a = int, simplified]\<close>)
  then show ?thesis by (simp add: signed_of_nat)
qed

lemma Send_cases:
  assumes "Send c msg ok = (r, c')"
  shows "(\<exists>e. r = Rejected e \<and> c' = c) \<or>
         (\<exists>req. r = Built req ok \<and> c' = c\<lparr>echoCounter := echoCounter c + 1\<rparr> \<and>
                Echo req = ''send_'' @ FormatInt (sint (echoCounter c + 1)))"
  using assms
  by (auto simp: Send_def Let_def split: if_splits sum.splits prod.splits)

lemma other_ops_counter:
  "echoCounter (snd (Start c dial)) = echoCounter c"
  "echoCounter (reconnect_tick c dial) = echoCounter c"
  "echoCounter (read_error c) = echoCounter c"
  "echoCounter (Stop c) = echoCounter c"
  by (simp_all add: Start_def connect_def reconnect_tick_def read_error_def Stop_def Let_def
      split: option.splits)

lemma upt_from_1: "[1..<Suc (Suc n)] = 1 # map Suc [1..<Suc n]"
proof -
  have "[1..<Suc (Suc n)] = 1 # [Suc 1..<Suc (Suc n)]" by (simp add: upt_conv_Cons)
  also have "[Suc 1..<Suc (Suc n)] = map Suc [1..<Suc n]" by (simp only: map_Suc_upt)
  finally show ?thesis .
qed

lemma run_ops_echoes:
  assumes "run_ops c ops = (rs, c')"
  shows "echoCounter c' = echoCounter c + of_nat (length (echoes rs)) \<and>
         echoes rs = map (\<lambda>k. ''send_'' @ FormatInt (sint (echoCounter c + of_nat k)))
                        [1..<Suc (length (echoes rs))]"
  using assms
proof (induction ops arbitrary: c rs)
  case Nil
  then show ?case by simp
next
  case (Cons op ops)
  show ?case
  proof (cases op)
    case (OpStart dial)
    with Cons.prems have "run_ops (snd (Start c dial)) ops = (rs, c')" by simp
    from Cons.IH[OF this] show ?thesis by (simp add: other_ops_counter)
  next
    case (OpTick dial)
    with Cons.prems have "run_ops (reconnect_tick c dial) ops = (rs, c')" by simp
    from Cons.IH[OF this] show ?thesis by (simp add: other_ops_counter)
  next
    case OpReadError
    with Cons.prems have "run_ops (read_error c) ops = (rs, c')" by simp
    from Cons.IH[OF this] show ?thesis by (simp add: other_ops_counter)
  next
    case OpStop
    with Cons.prems have "run_ops (Stop c) ops = (rs, c')" by simp
    from Cons.IH[OF this] show ?thesis by (simp add: other_ops_counter)
  next
    case (OpSend msg ok)
    obtain r c1 where s: "Send c msg ok = (r, c1)" by (cases "Send c msg ok")
    obtain rs1 c2 where r1: "run_ops c1 ops = (rs1, c2)" by (cases "run_ops c1 ops")
    from Cons.prems OpSend s r1 have rs: "rs = r # rs1" and c2: "c2 = c'" by simp_all
    note ih = Cons.IH[OF r1[unfolded c2]]
    from Send_cases[OF s] show ?thesis
    proof (elim disjE exE conjE)
      fix e assume "r = Rejected e" "c1 = c"
      then show ?thesis using ih rs c2 by simp
    next
      fix req
      assume b: "r = Built req ok" "c1 = c\<lparr>echoCounter := echoCounter c + 1\<rparr>"
        "Echo req = ''send_'' @ FormatInt (sint (echoCounter c + 1))"
      let ?n = "length (echoes rs1)"
      let ?f = "\<lambda>k. ''send_'' @ FormatInt (sint (echoCounter c + of_nat k))"
      have len: "length (echoes rs) = Suc ?n" using rs b(1) by simp
      have e1: "echoes rs1 = map (\<lambda>k. ?f (Suc k)) [1..<Suc ?n]"
        using ih b(2) by (simp add: add.assoc)
      have "echoes rs = ?f 1 # map (\<lambda>k. ?f (Suc k)) [1..<Suc ?n]"
        using rs b(1,3) e1 by simp
      also have "\<dots> = map ?f [1..<Suc (Suc ?n)]"
        by (simp only: upt_from_1 list.map map_map o_def)
      finally have full: "echoes rs = map ?f [1..<Suc (Suc ?n)]" .
      have A: "echoes rs = map ?f [1..<Suc (length (echoes rs))]"
        unfolding len by (fact full)
      have B: "echoCounter c' = echoCounter c + of_nat (length (echoes rs))"
        using ih b(2) c2 len by (simp add: add.assoc)
      from A B show ?thesis by blast
    qed
  qed
qed

lemma example_send:
  "buildSendRequest example_msg = Inr (''send_private_msg'', oneBotSendPrivateMsgParams 123 ''hi'')"
  by (simp add: buildSendRequest_def example_msg_def ParseInt_examples2)

lemma example_run:
  "run_ops (NewOneBotChannel example_config)
     [OpStart (Some 1), OpSend example_msg True, OpReadError, OpTick (Some 2), OpSend example_msg True]
   = ([Built \<lparr>Action = ''send_private_msg'', Params = oneBotSendPrivateMsgParams 123 ''hi'',
               Echo = ''send_1''\<rparr> True,
       Built \<lparr>Action = ''send_private_msg'', Params = oneBotSendPrivateMsgParams 123 ''hi'',
               Echo = ''send_2''\<rparr> True],
      (NewOneBotChannel example_config)\<lparr>running := True, conn := Some 2, echoCounter := 2\<rparr>)"
  by (simp add: Start_def connect_def reconnect_tick_def read_error_def Send_def example_send
      NewOneBotChannel_def example_config_def Let_def FormatInt_def FormatUint.simps digit_char_def)

subsection \<open>The trigger classifier: claim C7\<close>

text \<open>
  C7: with a mention, \<open>checkGroupTrigger\<close> returns true and the trimmed content.
  Without one it returns, for the first configured prefix that is not empty and is a
  prefix of the content, true and the trimmed rest of the content after that prefix,
  and false with the content unchanged when there is no such prefix. With the
  prefixes \<open>["!bot "]\<close>, \<open>"!bot hello"\<close> gives \<open>(true, "hello")\<close> and \<open>"hello"\<close>
  without a mention gives \<open>(false, "hello")\<close>.
\<close>

theorem checkGroupTrigger_spec:
  "checkGroupTrigger c content True = (True, TrimSpace content) \<and>
   checkGroupTrigger c content False =
     (case find (\<lambda>p. p \<noteq> [] \<and> HasPrefix content p) (GroupTriggerPrefix (config c)) of
        None \<Rightarrow> (False, content)
      | Some p \<Rightarrow> (True, TrimSpace (drop (length p) content))) \<and>
   (GroupTriggerPrefix (config c) = [''!bot ''] \<longrightarrow>
      checkGroupTrigger c ''!bot hello'' False = (True, ''hello'') \<and>
      checkGroupTrigger c ''hello'' False = (False, ''hello''))"
  by (simp add: checkGroupTrigger_def prefix_loop_find HasPrefix_def TrimSpace_hello)

theorem checkGroupTrigger_spec_witness:
  "GroupTriggerPrefix (config (NewOneBotChannel example_config)) = [''!bot ''] \<and>
   checkGroupTrigger (NewOneBotChannel example_config) ''!bot hello'' False = (True, ''hello'') \<and>
   checkGroupTrigger (NewOneBotChannel example_config) ''hello'' False = (False, ''hello'') \<and>
   checkGroupTrigger (NewOneBotChannel example_config) ''hello'' True = (True, ''hello'')"
proof -
  have g: "GroupTriggerPrefix (config (NewOneBotChannel example_config)) = [''!bot '']"
    by (simp add: NewOneBotChannel_def example_config_def)
  from checkGroupTrigger_spec[of "NewOneBotChannel example_config" "''hello''"] g
  show ?thesis by (simp add: TrimSpace_hello HasPrefix_def)
qed

subsection \<open>Destinations: claim C8\<close>

text \<open>
  C8: a chat id \<open>group:<n>\<close> whose suffix \<open>strconv.ParseInt\<close> accepts as the int64
  \<open>n\<close> gives the action \<open>send_group_msg\<close> with group id \<open>n\<close>; a chat id
  \<open>private:<n>\<close> with such a suffix, and a bare chat id that parses as \<open>n\<close>, give
  \<open>send_private_msg\<close> with user id \<open>n\<close>. The decimal text of every int64 is accepted
  and parses as itself. Any other chat id gives an error and no request.
\<close>

theorem buildSendRequest_spec:
  "(ParseInt sfx = (n, None) \<longrightarrow>
      buildSendRequest \<lparr>msg_ChatID = ''group:'' @ sfx, msg_Content = m\<rparr> =
        Inr (''send_group_msg'', oneBotSendGroupMsgParams n m) \<and>
      buildSendRequest \<lparr>msg_ChatID = ''private:'' @ sfx, msg_Content = m\<rparr> =
        Inr (''send_private_msg'', oneBotSendPrivateMsgParams n m) \<and>
      buildSendRequest \<lparr>msg_ChatID = sfx, msg_Content = m\<rparr> =
        Inr (''send_private_msg'', oneBotSendPrivateMsgParams n m)) \<and>
   (- (2 ^ 63) \<le> i \<and> i < 2 ^ 63 \<longrightarrow> ParseInt (FormatInt i) = (i, None)) \<and>
   ((\<forall>s k. \<not> (cid = ''group:'' @ s \<and> ParseInt s = (k, None))) \<and>
    (\<forall>s k. \<not> (cid = ''private:'' @ s \<and> ParseInt s = (k, None))) \<and>
    (\<forall>k. ParseInt cid \<noteq> (k, None)) \<longrightarrow>
      isl (buildSendRequest \<lparr>msg_ChatID = cid, msg_Content = m\<rparr>))"
  using buildSendRequest_group[of sfx n m] buildSendRequest_private[of sfx n m]
    buildSendRequest_bare[of sfx n m] ParseInt_FormatInt[of i] buildSendRequest_other[of cid m]
  by blast

theorem buildSendRequest_spec_witness:
  "ParseInt ''456'' = (456, None) \<and>
   buildSendRequest \<lparr>msg_ChatID = ''group:456'', msg_Content = ''hi''\<rparr> =
     Inr (''send_group_msg'', oneBotSendGroupMsgParams 456 ''hi'') \<and>
   buildSendRequest \<lparr>msg_ChatID = ''private:456'', msg_Content = ''hi''\<rparr> =
     Inr (''send_private_msg'', oneBotSendPrivateMsgParams 456 ''hi'') \<and>
   buildSendRequest \<lparr>msg_ChatID = ''456'', msg_Content = ''hi''\<rparr> =
     Inr (''send_private_msg'', oneBotSendPrivateMsgParams 456 ''hi'') \<and>
   ParseInt (FormatInt 123) = (123, None) \<and>
   isl (buildSendRequest \<lparr>msg_ChatID = ''group:abc'', msg_Content = ''hi''\<rparr>)"
proof -
  note t = buildSendRequest_spec[of "''456''" 456 "''hi''" 123 "''group:abc''"]
  have h1: "\<forall>s k. \<not> (''group:abc'' = ''group:'' @ s \<and> ParseInt s = (k, None))"
    by (auto simp: ParseInt_examples)
  have h2: "\<forall>s k. \<not> (''group:abc'' = ''private:'' @ s \<and> ParseInt s = (k, None))"
    by simp
  have h3: "\<forall>k. ParseInt ''group:abc'' \<noteq> (k, None)"
    by (simp add: ParseInt_examples)
  have i: "- (2 ^ 63) \<le> (123::int) \<and> (123::int) < 2 ^ 63" by simp
  from t ParseInt_examples(1) h1 h2 h3 i show ?thesis by simp
qed

subsection \<open>Empty content: claim C10\<close>

text \<open>
  C10: for an event whose content is empty, \<open>handleMessage\<close> makes no call of the bus
  callback, and the channel it leaves is the one \<open>isDuplicate\<close> left: in a state of
  the invariant the call does not panic, and a message id other than \<open>""\<close> and
  \<open>"0"\<close> is in the presence set afterwards, recorded by that same call if it was not
  there before.
\<close>

theorem handleMessage_empty_content:
  assumes "Content evt = []"
  shows "handleMessage c evt =
           (case isDuplicate c (MessageID evt) of
              None \<Rightarrow> None
            | Some (r, c') \<Rightarrow> Some (None, c')) \<and>
         (dedup_inv c \<and> MessageID evt \<noteq> '''' \<and> MessageID evt \<noteq> ''0'' \<longrightarrow>
            (\<exists>c'. handleMessage c evt = Some (None, c') \<and> MessageID evt \<in> dedup c'))"
proof -
  have A: "handleMessage c evt =
           (case isDuplicate c (MessageID evt) of
              None \<Rightarrow> None
            | Some (r, c') \<Rightarrow> Some (None, c'))"
    using assms by (auto simp: handleMessage_def split: option.splits bool.splits)
  have B: "\<exists>c'. handleMessage c evt = Some (None, c') \<and> MessageID evt \<in> dedup c'"
    if inv: "dedup_inv c" and id: "MessageID evt \<noteq> ''''" "MessageID evt \<noteq> ''0''"
  proof -
    from isDuplicate_inv[OF inv, of "MessageID evt"] obtain r c' where
      call: "isDuplicate c (MessageID evt) = Some (r, c')" by blast
    have "MessageID evt \<in> dedup c'"
    proof (cases r)
      case True
      then show ?thesis using isDuplicate_True[of c "MessageID evt" c'] call by simp
    next
      case False
      with call have f: "isDuplicate c (MessageID evt) = Some (False, c')" by simp
      from isDuplicate_False[OF f id] isDuplicate_insert[OF id] f
      show ?thesis by auto
    qed
    then show ?thesis using A call by simp
  qed
  from A B show ?thesis by blast
qed

theorem handleMessage_empty_content_witness:
  "Content (example_event []) = [] \<and> dedup_inv (NewOneBotChannel example_config) \<and>
   MessageID (example_event []) \<noteq> '''' \<and> MessageID (example_event []) \<noteq> ''0'' \<and>
   (\<exists>c'. handleMessage (NewOneBotChannel example_config) (example_event []) = Some (None, c') \<and>
         MessageID (example_event []) \<in> dedup c') \<and>
   (\<exists>call c'. handleMessage (NewOneBotChannel example_config) (example_event ''hi'')
                 = Some (Some call, c') \<and>
              call_chatID call = ''private:123'' \<and> call_content call = ''hi'')"
proof -
  let ?c = "NewOneBotChannel example_config"
  have inv: "dedup_inv ?c" by (rule dedup_inv_init)
  have e: "Content (example_event []) = []" by (simp add: example_event_def)
  have id: "MessageID (example_event []) \<noteq> ''''" "MessageID (example_event []) \<noteq> ''0''"
    by (simp_all add: example_event_def)
  from handleMessage_empty_content[OF e, of ?c] inv id
  have A: "\<exists>c'. handleMessage ?c (example_event []) = Some (None, c') \<and>
         MessageID (example_event []) \<in> dedup c'" by blast
  have "MessageID (example_event ''hi'') \<notin> dedup ?c" "dedupIdx ?c < length (dedupRing ?c)"
    "MessageID (example_event ''hi'') \<noteq> ''''" "MessageID (example_event ''hi'') \<noteq> ''0''"
    by (simp_all add: NewOneBotChannel_def dedupSize_def example_event_def)
  from isDuplicate_insert[OF this(3,4,1,2)] obtain c' where
    "isDuplicate ?c (MessageID (example_event ''hi'')) = Some (False, c')" by blast
  then have B: "\<exists>call c'. handleMessage ?c (example_event ''hi'') = Some (Some call, c') \<and>
              call_chatID call = ''private:123'' \<and> call_content call = ''hi''"
    by (simp add: handleMessage_def example_event_def forward_def FormatInt_examples Let_def empty_sender_def)
  from inv e id A B show ?thesis by blast
qed

subsection \<open>The flexible integer decoder: claim C1\<close>

text \<open>
  C1, as the code has it: an absent and a \<open>null\<close> value give \<open>0\<close> without an error;
  a JSON number whose literal \<open>strconv.ParseInt\<close> accepts gives that number, and the
  decimal text of every int64 is such a literal; a JSON string gives what
  \<open>strconv.ParseInt\<close> returns for the string's content as it is, not trimmed; and
  there is an error exactly when the direct numeric decode fails and the string decode
  or the parse of the string fails too.
\<close>

theorem parseJSONInt64_spec:
  "parseJSONInt64 None = (0, None) \<and> parseJSONInt64 (Some JNull) = (0, None) \<and>
   (- (2 ^ 63) \<le> i \<and> i < 2 ^ 63 \<longrightarrow> parseJSONInt64 (Some (JNumber (FormatInt i))) = (i, None)) \<and>
   (ParseInt lit = (n, None) \<longrightarrow> parseJSONInt64 (Some (JNumber lit)) = (n, None)) \<and>
   parseJSONInt64 (Some (JString s)) =
     (case ParseInt s of (k, None) \<Rightarrow> (k, None) | (k, Some e) \<Rightarrow> (k, Some (NumError e s))) \<and>
   (snd (parseJSONInt64 raw) \<noteq> None \<longleftrightarrow>
      (\<exists>v. raw = Some v \<and> unmarshal_int64 v = None \<and>
           (case unmarshal_string v of None \<Rightarrow> True | Some s \<Rightarrow> snd (ParseInt s) \<noteq> None)))"
proof -
  have "parseJSONInt64 (Some (JNumber (FormatInt i))) = (i, None)"
    if "- (2 ^ 63) \<le> i \<and> i < 2 ^ 63"
    using ParseInt_FormatInt[of i] that by (simp add: parseJSONInt64_def)
  moreover have "parseJSONInt64 (Some (JNumber lit)) = (n, None)" if "ParseInt lit = (n, None)"
    using that by (simp add: parseJSONInt64_def)
  moreover have "parseJSONInt64 (Some (JString s)) =
     (case ParseInt s of (k, None) \<Rightarrow> (k, None) | (k, Some e) \<Rightarrow> (k, Some (NumError e s)))"
    by (simp add: parseJSONInt64_def)
  moreover have "parseJSONInt64 None = (0, None)" "parseJSONInt64 (Some JNull) = (0, None)"
    by (simp_all add: parseJSONInt64_def)
  ultimately show ?thesis using parseJSONInt64_error_iff[of raw] by blast
qed

theorem parseJSONInt64_spec_witness:
  "parseJSONInt64 (Some (JNumber ''5'')) = (5, None) \<and>
   parseJSONInt64 (Some (JString ''5'')) = (5, None) \<and>
   parseJSONInt64 None = (0, None) \<and>
   parseJSONInt64 (Some (JNumber (FormatInt 5))) = (5, None) \<and>
   snd (parseJSONInt64 (Some (JString ''abc''))) \<noteq> None \<and>
   snd (parseJSONInt64 (Some (JBool True))) \<noteq> None"
proof -
  note t = parseJSONInt64_spec[of 5 "''5''" 5 "''5''" "Some (JString ''abc'')"]
  note u = parseJSONInt64_spec[of 5 "''5''" 5 "''5''" "Some (JBool True)"]
  have i: "- (2 ^ 63) \<le> (5::int) \<and> (5::int) < 2 ^ 63" by simp
  have a: "\<exists>v. Some (JString ''abc'') = Some v \<and> unmarshal_int64 v = None \<and>
           (case unmarshal_string v of None \<Rightarrow> True | Some s \<Rightarrow> snd (ParseInt s) \<noteq> None)"
    by (simp add: ParseInt_examples)
  have b: "\<exists>v. Some (JBool True) = Some v \<and> unmarshal_int64 v = None \<and>
           (case unmarshal_string v of None \<Rightarrow> True | Some s \<Rightarrow> snd (ParseInt s) \<noteq> None)"
    by simp
  from t u i a b ParseInt_examples2(2) show ?thesis by simp
qed

text \<open>
  C1 as stated, with the string trimmed before the parse, fails on the JSON
  string \<open>" 5 "\<close>: the trimmed content parses as \<open>5\<close>, the decoder returns a syntax
  error.
\<close>

theorem parseJSONInt64_no_trim:
  "parseJSONInt64 (Some (JString '' 5 '')) = (0, Some (NumError ErrSyntax '' 5 '')) \<and>
   ParseInt (TrimSpace '' 5 '') = (5, None)"
  by (simp add: parseJSONInt64_def ParseInt_examples2 TrimSpace_examples)

subsection \<open>Normalization failures: claim C5\<close>

text \<open>
  C5, as the code has it: \<open>normalizeMessageEvent\<close> returns an error exactly when the
  user id cannot be coerced. Otherwise it returns an event, whatever the group id, the
  self id, the time and the sender are. In that event a group id, self id or time
  whose coercion fails because the value is not numeric at all is \<open>0\<close> (nothing is
  said here of a digit string outside the int64 range), and the sender fields are empty
  when the sender value is not a JSON object.
\<close>

theorem normalizeMessageEvent_errors:
  "(isl (normalizeMessageEvent L raw) \<longleftrightarrow> snd (parseJSONInt64 (raw_UserID raw)) \<noteq> None) \<and>
   (snd (parseJSONInt64 (raw_UserID raw)) = None \<longrightarrow>
      (\<exists>evt. normalizeMessageEvent L raw = Inr evt \<and>
             UserID evt = fst (parseJSONInt64 (raw_UserID raw)) \<and>
             (\<forall>e. snd (parseJSONInt64 (raw_GroupID raw)) = Some e \<and>
                  (\<forall>s. e \<noteq> NumError ErrRange s) \<longrightarrow> GroupID evt = 0) \<and>
             (\<forall>e. snd (parseJSONInt64 (raw_SelfID raw)) = Some e \<and>
                  (\<forall>s. e \<noteq> NumError ErrRange s) \<longrightarrow> SelfID evt = 0) \<and>
             (\<forall>e. snd (parseJSONInt64 (raw_Time raw)) = Some e \<and>
                  (\<forall>s. e \<noteq> NumError ErrRange s) \<longrightarrow> Time evt = 0) \<and>
             (\<forall>v. raw_Sender raw = Some v \<and> (\<forall>kvs. v \<noteq> JObject kvs)
                  \<longrightarrow> Sender evt = empty_sender)))"
proof -
  have "\<exists>evt. normalizeMessageEvent L raw = Inr evt \<and>
             UserID evt = fst (parseJSONInt64 (raw_UserID raw)) \<and>
             (\<forall>e. snd (parseJSONInt64 (raw_GroupID raw)) = Some e \<and>
                  (\<forall>s. e \<noteq> NumError ErrRange s) \<longrightarrow> GroupID evt = 0) \<and>
             (\<forall>e. snd (parseJSONInt64 (raw_SelfID raw)) = Some e \<and>
                  (\<forall>s. e \<noteq> NumError ErrRange s) \<longrightarrow> SelfID evt = 0) \<and>
             (\<forall>e. snd (parseJSONInt64 (raw_Time raw)) = Some e \<and>
                  (\<forall>s. e \<noteq> NumError ErrRange s) \<longrightarrow> Time evt = 0) \<and>
             (\<forall>v. raw_Sender raw = Some v \<and> (\<forall>kvs. v \<noteq> JObject kvs)
                  \<longrightarrow> Sender evt = empty_sender)"
    if ok: "snd (parseJSONInt64 (raw_UserID raw)) = None"
  proof -
    from normalizeMessageEvent_Inr[OF ok, of L] obtain evt where
      evt: "normalizeMessageEvent L raw = Inr evt"
        "UserID evt = fst (parseJSONInt64 (raw_UserID raw))"
        "GroupID evt = fst (parseJSONInt64 (raw_GroupID raw))"
        "SelfID evt = fst (parseJSONInt64 (raw_SelfID raw))"
        "Time evt = fst (parseJSONInt64 (raw_Time raw))"
        "Sender evt = (case raw_Sender raw of None \<Rightarrow> empty_sender
                           | Some v \<Rightarrow> snd (unmarshal_sender v))"
      by blast
    have g: "GroupID evt = 0"
      if "snd (parseJSONInt64 (raw_GroupID raw)) = Some e \<and> (\<forall>s. e \<noteq> NumError ErrRange s)" for e
      using parseJSONInt64_fail_zero[of "raw_GroupID raw" e] that evt(3) by simp
    have s: "SelfID evt = 0"
      if "snd (parseJSONInt64 (raw_SelfID raw)) = Some e \<and> (\<forall>s. e \<noteq> NumError ErrRange s)" for e
      using parseJSONInt64_fail_zero[of "raw_SelfID raw" e] that evt(4) by simp
    have t: "Time evt = 0"
      if "snd (parseJSONInt64 (raw_Time raw)) = Some e \<and> (\<forall>s. e \<noteq> NumError ErrRange s)" for e
      using parseJSONInt64_fail_zero[of "raw_Time raw" e] that evt(5) by simp
    have d: "Sender evt = empty_sender"
      if "raw_Sender raw = Some v \<and> (\<forall>kvs. v \<noteq> JObject kvs)" for v
      using unmarshal_sender_not_object[of v] that evt(6) by simp
    from evt(1,2) g s t d show ?thesis by blast
  qed
  then show ?thesis
    using normalizeMessageEvent_Inl[of L raw] by blast
qed

theorem normalizeMessageEvent_errors_witness:
  "snd (parseJSONInt64 (raw_UserID example_raw)) = None \<and>
   (\<exists>evt. normalizeMessageEvent example_lib
            (example_raw\<lparr>raw_GroupID := Some (JString ''abc''), raw_SelfID := Some (JBool True),
               raw_Time := Some (JArray []), raw_Sender := Some (JNumber ''7'')\<rparr>) = Inr evt \<and>
          UserID evt = 123 \<and> GroupID evt = 0 \<and> SelfID evt = 0 \<and> Time evt = 0 \<and>
          Sender evt = empty_sender) \<and>
   isl (normalizeMessageEvent example_lib (example_raw\<lparr>raw_UserID := Some (JString ''abc'')\<rparr>))"
proof -
  let ?raw = "example_raw\<lparr>raw_GroupID := Some (JString ''abc''), raw_SelfID := Some (JBool True),
               raw_Time := Some (JArray []), raw_Sender := Some (JNumber ''7'')\<rparr>"
  let ?bad = "example_raw\<lparr>raw_UserID := Some (JString ''abc'')\<rparr>"
  note t = normalizeMessageEvent_errors[of example_lib ?raw]
  note u = normalizeMessageEvent_errors[of example_lib ?bad]
  have uid: "parseJSONInt64 (raw_UserID ?raw) = (123, None)"
    "snd (parseJSONInt64 (raw_UserID example_raw)) = None"
    by (simp_all add: example_raw_def parseJSONInt64_def ParseInt_examples2)
  have g: "snd (parseJSONInt64 (raw_GroupID ?raw)) = Some (NumError ErrSyntax ''abc'') \<and>
           (\<forall>s. NumError ErrSyntax ''abc'' \<noteq> NumError ErrRange s)"
    by (simp add: parseJSONInt64_def ParseInt_examples)
  have s: "snd (parseJSONInt64 (raw_SelfID ?raw)) = Some (CannotParse (JBool True)) \<and>
           (\<forall>s. CannotParse (JBool True) \<noteq> NumError ErrRange s)"
    by (simp add: parseJSONInt64_def)
  have a: "snd (parseJSONInt64 (raw_Time ?raw)) = Some (CannotParse (JArray [])) \<and>
           (\<forall>s. CannotParse (JArray []) \<noteq> NumError ErrRange s)"
    by (simp add: parseJSONInt64_def)
  have d: "raw_Sender ?raw = Some (JNumber ''7'') \<and> (\<forall>kvs. JNumber ''7'' \<noteq> JObject kvs)"
    by simp
  from t[THEN conjunct2] uid(1) obtain evt where
    evt: "normalizeMessageEvent example_lib ?raw = Inr evt"
      "UserID evt = fst (parseJSONInt64 (raw_UserID ?raw))"
      "\<forall>e. snd (parseJSONInt64 (raw_GroupID ?raw)) = Some e \<and>
                  (\<forall>s. e \<noteq> NumError ErrRange s) \<longrightarrow> GroupID evt = 0"
      "\<forall>e. snd (parseJSONInt64 (raw_SelfID ?raw)) = Some e \<and>
                  (\<forall>s. e \<noteq> NumError ErrRange s) \<longrightarrow> SelfID evt = 0"
      "\<forall>e. snd (parseJSONInt64 (raw_Time ?raw)) = Some e \<and>
                  (\<forall>s. e \<noteq> NumError ErrRange s) \<longrightarrow> Time evt = 0"
      "\<forall>v. raw_Sender ?raw = Some v \<and> (\<forall>kvs. v \<noteq> JObject kvs)
                  \<longrightarrow> Sender evt = empty_sender"
    by auto
  have A: "\<exists>evt. normalizeMessageEvent example_lib ?raw = Inr evt \<and>
          UserID evt = 123 \<and> GroupID evt = 0 \<and> SelfID evt = 0 \<and> Time evt = 0 \<and>
          Sender evt = empty_sender"
    using evt(1,2) uid(1) evt(3)[rule_format, OF g] evt(4)[rule_format, OF s]
      evt(5)[rule_format, OF a] evt(6)[rule_format, OF d]
    by (intro exI[of _ evt]) simp
  have "snd (parseJSONInt64 (raw_UserID ?bad)) \<noteq> None"
    by (simp add: parseJSONInt64_def ParseInt_examples)
  with u have B: "isl (normalizeMessageEvent example_lib ?bad)" by blast
  from uid(2) A B show ?thesis by blast
qed

text \<open>
  C5 as stated, with every field of a failed coercion left zero or empty, fails
  on a group id sent as the string \<open>"9223372036854775808"\<close>: the coercion fails with
  a range error and the event carries the largest int64 as its group id. It also fails
  on the sender \<open>{"nickname": 5, "card": "x"}\<close>: the sender does not decode, and the
  event carries the card.
\<close>

theorem normalizeMessageEvent_keeps_failed_values:
  "(case normalizeMessageEvent example_lib
           (example_raw\<lparr>raw_GroupID := Some (JString ''9223372036854775808''),
              raw_Sender := Some (JObject [(''nickname'', JNumber ''5''), (''card'', JString ''x'')])\<rparr>) of
      Inl e \<Rightarrow> False
    | Inr evt \<Rightarrow> GroupID evt = 9223372036854775807 \<and> sender_Card (Sender evt) = ''x'') \<and>
   snd (parseJSONInt64 (Some (JString ''9223372036854775808''))) =
     Some (NumError ErrRange ''9223372036854775808'') \<and>
   fst (unmarshal_sender (JObject [(''nickname'', JNumber ''5''), (''card'', JString ''x'')]))"
  by (simp add: normalizeMessageEvent_def example_raw_def parseJSONInt64_def ParseInt_examples2
      Let_def unmarshal_sender_def empty_sender_def upper_def split: prod.splits)

subsection \<open>The source of the content: claim C6\<close>

text \<open>
  C6: when the raw event's \<open>raw_message\<close> is not empty, the content of the normalized
  event is made from it alone: it is \<open>raw_message\<close> with the mention token of the self
  id removed and the result trimmed when the self id is positive and the token occurs,
  and \<open>raw_message\<close> itself otherwise, whatever the \<open>message\<close> field holds. The
  structured decode of \<open>message\<close> gives the content when \<open>raw_message\<close> is empty.
\<close>

theorem raw_message_precedence:
  assumes "normalizeMessageEvent L raw = Inr evt"
  shows "(raw_RawMessage raw \<noteq> [] \<longrightarrow>
            Content evt =
              (if 0 < SelfID evt \<and> Contains (raw_RawMessage raw) (cqAt (SelfID evt))
               then TrimSpace (RemoveAll (raw_RawMessage raw) (cqAt (SelfID evt)))
               else raw_RawMessage raw) \<and>
            (\<forall>m. \<exists>evt'. normalizeMessageEvent L (raw\<lparr>raw_Message := m\<rparr>) = Inr evt' \<and>
                         Content evt' = Content evt)) \<and>
         (raw_RawMessage raw = [] \<longrightarrow>
            Content evt = Text (parseMessageContentEx L (raw_Message raw) (SelfID evt)))"
proof -
  have ok: "snd (parseJSONInt64 (raw_UserID raw)) = None"
    using normalizeMessageEvent_Inl[of L raw] assms by auto
  from normalizeMessageEvent_Inr[OF ok, of L] assms
  have self: "SelfID evt = fst (parseJSONInt64 (raw_SelfID raw))"
    and c: "Content evt =
               (let selfID = fst (parseJSONInt64 (raw_SelfID raw))
                in if raw_RawMessage raw = [] then Text (parseMessageContentEx L (raw_Message raw) selfID)
                   else if 0 < selfID \<and> Contains (raw_RawMessage raw) (cqAt selfID)
                   then TrimSpace (RemoveAll (raw_RawMessage raw) (cqAt selfID))
                   else raw_RawMessage raw)"
    by auto
  have "\<exists>evt'. normalizeMessageEvent L (raw\<lparr>raw_Message := m\<rparr>) = Inr evt' \<and>
                         Content evt' = Content evt" if ne: "raw_RawMessage raw \<noteq> []" for m
  proof -
    have "snd (parseJSONInt64 (raw_UserID (raw\<lparr>raw_Message := m\<rparr>))) = None" using ok by simp
    from normalizeMessageEvent_Inr[OF this, of L] obtain evt' where
      "normalizeMessageEvent L (raw\<lparr>raw_Message := m\<rparr>) = Inr evt'"
      "Content evt' =
               (let selfID = fst (parseJSONInt64 (raw_SelfID raw))
                in if 0 < selfID \<and> Contains (raw_RawMessage raw) (cqAt selfID)
                   then TrimSpace (RemoveAll (raw_RawMessage raw) (cqAt selfID))
                   else raw_RawMessage raw)"
      using ne by (auto simp: Let_def)
    then show ?thesis using c ne by (auto simp: Let_def)
  qed
  then show ?thesis using c self by (auto simp: Let_def)
qed

theorem raw_message_precedence_witness:
  "(\<exists>evt. normalizeMessageEvent example_lib example_raw = Inr evt \<and>
          raw_RawMessage example_raw \<noteq> [] \<and> Content evt = ''hi'' \<and>
          (\<exists>evt'. normalizeMessageEvent example_lib (example_raw\<lparr>raw_Message := None\<rparr>) = Inr evt' \<and>
                 Content evt' = ''hi'')) \<and>
   (\<exists>evt. normalizeMessageEvent example_lib (example_raw\<lparr>raw_RawMessage := []\<rparr>) = Inr evt \<and>
          raw_RawMessage (example_raw\<lparr>raw_RawMessage := []\<rparr>) = [] \<and>
          Content evt = ''something else'')"
proof -
  let ?e = "example_raw\<lparr>raw_RawMessage := []\<rparr>"
  have uid: "snd (parseJSONInt64 (raw_UserID example_raw)) = None"
    "snd (parseJSONInt64 (raw_UserID ?e)) = None"
    by (simp_all add: example_raw_def parseJSONInt64_def ParseInt_examples2)
  have sid: "fst (parseJSONInt64 (raw_SelfID example_raw)) = 5"
    by (simp add: example_raw_def parseJSONInt64_def ParseInt_examples2)
  from normalizeMessageEvent_Inr[OF uid(1), of example_lib] obtain evt where
    evt: "normalizeMessageEvent example_lib example_raw = Inr evt" "SelfID evt = 5"
    using sid by auto
  from normalizeMessageEvent_Inr[OF uid(2), of example_lib] obtain evt2 where
    evt2: "normalizeMessageEvent example_lib ?e = Inr evt2" "SelfID evt2 = 5"
    using sid by auto
  have rm: "raw_RawMessage example_raw = ''[CQ:at,qq=5] hi''"
    "raw_Message ?e = Some (JString ''something else'')" "raw_RawMessage ?e = []"
    by (simp_all add: example_raw_def)
  have ev: "Contains ''[CQ:at,qq=5] hi'' ''[CQ:at,qq=5]''"
    "RemoveAll ''[CQ:at,qq=5] hi'' ''[CQ:at,qq=5]'' = '' hi''"
    "\<not> Contains ''something else'' ''[CQ:at,qq=5]''"
    by (simp_all add: HasPrefix_def RemoveAll.simps Contains.simps)
  note t = raw_message_precedence[OF evt(1)]
  note u = raw_message_precedence[OF evt2(1)]
  have A: "Content evt = ''hi''"
    using t rm(1) evt(2) by (simp add: cqAt_5 ev TrimSpace_examples)
  from t rm(1) obtain evt' where
    B: "normalizeMessageEvent example_lib (example_raw\<lparr>raw_Message := None\<rparr>) = Inr evt'"
      "Content evt' = Content evt" by fastforce
  have C: "Content evt2 = ''something else''"
    using u rm(2,3) evt2(2) by (simp add: parseMessageContentEx_def cqAt_5 ev)
  from evt(1) rm(1) A B evt2(1) rm(3) C show ?thesis by auto
qed

subsection \<open>The echo token: claim C9\<close>

text \<open>
  C9, as the code has it: the echo counter belongs to the channel, not to the
  connection. \<open>Start\<close>, the reconnect tick, a read error and \<open>Stop\<close> leave it as it
  is, and every request that \<open>Send\<close> builds increments it. So over any sequence of
  operations on a new channel that builds fewer than \<open>2^63\<close> requests, the \<open>k\<close>-th
  request built carries the echo \<open>send_k\<close>, whatever connections came and went in
  between: successive echo values strictly increase.
\<close>

theorem echo_counter_channel_scoped:
  assumes "run_ops (NewOneBotChannel cfg) ops = (rs, c)" "length (echoes rs) < 2 ^ 63"
  shows "echoes rs = map (\<lambda>k. ''send_'' @ FormatInt (int k)) [1..<Suc (length (echoes rs))] \<and>
         sint (echoCounter c) = int (length (echoes rs))"
proof -
  let ?n = "length (echoes rs)"
  from run_ops_echoes[OF assms(1)]
  have c: "echoCounter c = of_nat ?n"
    and e: "echoes rs = map (\<lambda>k. ''send_'' @ FormatInt (sint (of_nat k :: 64 word))) [1..<Suc ?n]"
    by (simp_all add: NewOneBotChannel_def)
  have "sint (of_nat k :: 64 word) = int k" if "k \<in> set [1..<Suc ?n]" for k
    by (rule sint_of_nat_small) (use that assms(2) in auto)
  then have "map (\<lambda>k. ''send_'' @ FormatInt (sint (of_nat k :: 64 word))) [1..<Suc ?n]
      = map (\<lambda>k. ''send_'' @ FormatInt (int k)) [1..<Suc ?n]"
    by (intro map_cong) simp_all
  with e have A: "echoes rs = map (\<lambda>k. ''send_'' @ FormatInt (int k)) [1..<Suc ?n]" by simp
  have B: "sint (echoCounter c) = int ?n"
    unfolding c by (rule sint_of_nat_small) (rule assms(2))
  from A B show ?thesis by blast
qed

theorem echo_counter_channel_scoped_witness:
  "run_ops (NewOneBotChannel example_config)
     [OpStart (Some 1), OpSend example_msg True, OpReadError, OpTick (Some 2), OpSend example_msg True]
   = ([Built \<lparr>Action = ''send_private_msg'', Params = oneBotSendPrivateMsgParams 123 ''hi'',
               Echo = ''send_1''\<rparr> True,
       Built \<lparr>Action = ''send_private_msg'', Params = oneBotSendPrivateMsgParams 123 ''hi'',
               Echo = ''send_2''\<rparr> True],
      (NewOneBotChannel example_config)\<lparr>running := True, conn := Some 2, echoCounter := 2\<rparr>) \<and>
   sint (echoCounter ((NewOneBotChannel example_config)
      \<lparr>running := True, conn := Some 2, echoCounter := 2\<rparr>)) = 2"
proof -
  have "length (echoes [Built \<lparr>Action = ''send_private_msg'',
               Params = oneBotSendPrivateMsgParams 123 ''hi'', Echo = ''send_1''\<rparr> True,
       Built \<lparr>Action = ''send_private_msg'', Params = oneBotSendPrivateMsgParams 123 ''hi'',
               Echo = ''send_2''\<rparr> True]) < 2 ^ 63" by simp
  from echo_counter_channel_scoped[OF example_run this] example_run
  show ?thesis by simp
qed

text \<open>
  C9 as stated, with a counter scoped to the current connection, fails: after a
  read error and a reconnect the counter still stands at \<open>1\<close>, and the first request
  on the second connection carries \<open>send_2\<close>. And "any sequence" needs its bound: the
  counter is an \<open>int64\<close>, and the request after \<open>send_9223372036854775807\<close> carries
  \<open>send_-9223372036854775808\<close>.
\<close>

theorem echo_counter_not_connection_scoped:
  "echoes (fst (run_ops (NewOneBotChannel example_config)
     [OpStart (Some 1), OpSend example_msg True, OpReadError, OpTick (Some 2),
      OpSend example_msg True])) = [''send_1'', ''send_2''] \<and>
   conn (snd (run_ops (NewOneBotChannel example_config)
     [OpStart (Some 1), OpSend example_msg True])) = Some 1 \<and>
   conn (snd (run_ops (NewOneBotChannel example_config)
     [OpStart (Some 1), OpSend example_msg True, OpReadError, OpTick (Some 2)])) = Some 2 \<and>
   echoCounter (snd (run_ops (NewOneBotChannel example_config)
     [OpStart (Some 1), OpSend example_msg True, OpReadError, OpTick (Some 2)])) = 1 \<and>
   echoes [fst (Send ((NewOneBotChannel example_config)
              \<lparr>running := True, conn := Some 1, echoCounter := 9223372036854775806\<rparr>)
            example_msg True),
           fst (Send ((NewOneBotChannel example_config)
              \<lparr>running := True, conn := Some 1, echoCounter := 9223372036854775807\<rparr>)
            example_msg True)]
     = [''send_9223372036854775807'', ''send_-9223372036854775808'']"
  by (simp add: example_run Start_def connect_def reconnect_tick_def read_error_def Send_def
      example_send NewOneBotChannel_def example_config_def Let_def FormatInt_def FormatUint.simps
      digit_char_def)

end
